theory Spec2Isabelle
  imports Main "HOL-Library.Sublist" "HOL-Library.Multiset"
begin

section \<open>CORScanner: data model\<close>

text \<open>
  The program is one file, \<open>main.go\<close>, which holds two versions of it: the current
  one, with a timeout flag, and below it an older one without. The model follows the
  current version; \<open>parseHeader\<close>, the three probes of \<open>checkCORS\<close> and the worker
  pool of \<open>main\<close> are the same in both. Printing, the deferred closing of response
  bodies and the writing of the JSON files are left out: no property below depends on
  them.

  Go strings are byte sequences and are modelled as \<^typ>\<open>string\<close>; Go's \<open>int\<close>
  (64 bit on the platforms the tool is built for) is modelled as \<^typ>\<open>int\<close>, with
  the range limits written out where the code can reach them (\<open>strconv.Atoi\<close>).
\<close>

record CORSConfig =
  AllowOrigins :: "string list"
  AllowMethods :: "string list"
  AllowHeaders :: "string list"
  ExposeHeaders :: "string list"
  MaxAge :: int
  AllowCredentials :: string

record CORSResult =
  URL :: string
  StatusCode :: int
  CORSConfig :: CORSConfig
  Vulnerable :: bool
  Vulnerability :: string

text \<open>
  An \<open>http.Header\<close> is a \<open>map[string][]string\<close>. Of an \<open>http.Response\<close> the
  code reads \<open>StatusCode\<close> and \<open>Header\<close> only.
\<close>

type_synonym Header = "string \<rightharpoonup> string list"

record Response =
  RespStatusCode :: int
  RespHeader :: Header

text \<open>
  \<open>Header.Get\<close>: the first value stored under the key, the empty string when the key
  is absent or holds no value. The keys the code asks for are already in canonical form.
\<close>

definition Header_Get :: "Header \<Rightarrow> string \<Rightarrow> string" where
  "Header_Get h key =
     (case h key of
        None \<Rightarrow> []
      | Some [] \<Rightarrow> []
      | Some (v # _) \<Rightarrow> v)"

section \<open>Library functions the code calls\<close>

subsection \<open>Package strings\<close>

text \<open>
  \<open>strings.Split(s, sep)\<close> for a separator of one byte (the code splits on \<open>","\<close>):
  cut at every occurrence of the separator, keep the rest as the last piece. The result
  of splitting the empty string is the one-element list holding the empty string.
\<close>

function strings_Split :: "string \<Rightarrow> char \<Rightarrow> string list" where
  "strings_Split s sep =
     (case dropWhile (\<lambda>c. c \<noteq> sep) s of
        [] \<Rightarrow> [s]
      | _ # rest \<Rightarrow> takeWhile (\<lambda>c. c \<noteq> sep) s # strings_Split rest sep)"
  by pat_completeness auto
termination
proof (relation "measure (\<lambda>(s, sep). length s)")
  show "wf (measure (\<lambda>(s, sep). length s))"
    by simp
next
  fix s :: string and sep :: char and x21 :: char and x22 :: string
  assume "dropWhile (\<lambda>c. c \<noteq> sep) s = x21 # x22"
  then have "length (x21 # x22) \<le> length s"
    by (metis length_dropWhile_le)
  then show "((x22, sep), (s, sep)) \<in> measure (\<lambda>(s, sep). length s)"
    by simp
qed

declare strings_Split.simps [simp del]

definition strings_HasSuffix :: "string \<Rightarrow> string \<Rightarrow> bool" where
  "strings_HasSuffix s suff = suffix suff s"

definition strings_Contains :: "string \<Rightarrow> string \<Rightarrow> bool" where
  "strings_Contains s substr = sublist substr s"

subsection \<open>strconv.Atoi\<close>

text \<open>
  \<open>Atoi\<close> returns a value together with an error; the probe engine keeps the value
  and drops the error. The model follows the library: a fast path for short inputs, and
  \<open>ParseInt(s, 10, 0)\<close> over \<open>ParseUint\<close> otherwise. On a range error the library
  returns the bound of the integer type, not zero.
\<close>

datatype NumError = ErrSyntax | ErrRange

definition maxUint64 :: nat where
  "maxUint64 = 2 ^ 64 - 1"

definition maxInt64 :: int where
  "maxInt64 = 2 ^ 63 - 1"

definition minInt64 :: int where
  "minInt64 = - (2 ^ 63)"

text \<open>
  The digit loop of \<open>ParseUint\<close> in base 10 on 64 bits. A byte that is a letter has a
  digit value of at least 10, which is not below the base; any other non-digit byte has
  no digit value: both are syntax errors. \<open>n * 10\<close> cannot wrap below the cutoff, the
  addition of the digit is taken modulo \<open>2 ^ 64\<close> as the machine does.
\<close>

fun ParseUint_loop :: "nat \<Rightarrow> string \<Rightarrow> nat \<times> NumError option" where
  "ParseUint_loop n [] = (n, None)"
| "ParseUint_loop n (c # cs) =
     (if \<not> (48 \<le> (of_char c :: nat) \<and> (of_char c :: nat) \<le> 57) then (0, Some ErrSyntax)
      else if n \<ge> maxUint64 div 10 + 1 then (maxUint64, Some ErrRange)
      else
        (let n10 = n * 10;
             n1 = (n10 + (of_char c - 48)) mod 2 ^ 64
         in if n1 < n10 \<or> n1 > maxUint64 then (maxUint64, Some ErrRange)
            else ParseUint_loop n1 cs))"

definition ParseUint :: "string \<Rightarrow> nat \<times> NumError option" where
  "ParseUint s = (if s = [] then (0, Some ErrSyntax) else ParseUint_loop 0 s)"

definition ParseInt :: "string \<Rightarrow> int \<times> NumError option" where
  "ParseInt s =
     (if s = [] then (0, Some ErrSyntax)
      else
        (let neg = (hd s = CHR ''-'');
             s1 = (if hd s = CHR ''+'' \<or> hd s = CHR ''-'' then tl s else s);
             (un, err) = ParseUint s1
         in if err = Some ErrSyntax then (0, Some ErrSyntax)
            else if \<not> neg \<and> un \<ge> 2 ^ 63 then (maxInt64, Some ErrRange)
            else if neg \<and> un > 2 ^ 63 then (minInt64, Some ErrRange)
            else (if neg then - int un else int un, None)))"

text \<open>
  The fast path: \<open>ch -= '0'\<close> wraps in a byte, and \<open>ch > 9\<close> rejects every non-digit.
  With fewer than 19 bytes the accumulated value stays below \<open>10 ^ 18\<close>, inside the
  64-bit range.
\<close>

fun Atoi_fast :: "int \<Rightarrow> string \<Rightarrow> int option" where
  "Atoi_fast n [] = Some n"
| "Atoi_fast n (ch # s) =
     (let d = ((of_char ch :: nat) + 256 - 48) mod 256
      in if d > 9 then None else Atoi_fast (n * 10 + int d) s)"

definition Atoi :: "string \<Rightarrow> int \<times> NumError option" where
  "Atoi s =
     (if 0 < length s \<and> length s < 19 then
        (let signed = (hd s = CHR ''-'' \<or> hd s = CHR ''+'');
             s1 = (if signed then tl s else s)
         in if signed \<and> length s1 < 1 then (0, Some ErrSyntax)
            else
              (case Atoi_fast 0 s1 of
                 None \<Rightarrow> (0, Some ErrSyntax)
               | Some n \<Rightarrow> (if hd s = CHR ''-'' then - n else n, None)))
      else ParseInt s)"

section \<open>Header parsing\<close>

definition parseHeader :: "string \<Rightarrow> string list" where
  "parseHeader header = (if header = [] then [] else strings_Split header (CHR '',''))"

text \<open>
  The six assignments that follow every response in \<open>checkCORS\<close>: each field of
  \<open>corsConfig\<close> is overwritten from the response's headers.
\<close>

definition parseConfig :: "Response \<Rightarrow> CORSConfig" where
  "parseConfig resp =
     \<lparr> AllowOrigins = [Header_Get (RespHeader resp) ''Access-Control-Allow-Origin''],
       AllowMethods = parseHeader (Header_Get (RespHeader resp) ''Access-Control-Allow-Methods''),
       AllowHeaders = parseHeader (Header_Get (RespHeader resp) ''Access-Control-Allow-Headers''),
       ExposeHeaders = parseHeader (Header_Get (RespHeader resp) ''Access-Control-Expose-Headers''),
       MaxAge = fst (Atoi (Header_Get (RespHeader resp) ''Access-Control-Max-Age'')),
       AllowCredentials = Header_Get (RespHeader resp) ''Access-Control-Allow-Credentials'' \<rparr>"

section \<open>The environment of a probe\<close>

text \<open>
  Every request the engine builds is a GET with no body and one header, \<open>Origin\<close>.
\<close>

record Request =
  ReqURL :: string
  ReqOrigin :: string

text \<open>The two fields of a parsed \<open>url.URL\<close> that the code reads.\<close>

record ParsedURL =
  Scheme :: string
  Host :: string

text \<open>
  What lies outside the program is a parameter of the model: whether
  \<open>http.NewRequest("GET", url, nil)\<close> succeeds, what \<open>client.Do\<close> answers (an error is
  \<open>None\<close>; the network is a state \<open>'w\<close> that every call may change, and the answer may
  depend on the client's timeout), what \<open>url.Parse\<close> returns (an error is \<open>None\<close>), and
  the first result of \<open>publicsuffix.PublicSuffix\<close>. The four are independent of each
  other here, which allows more than the libraries do; what holds for every environment
  holds for the real ones.
\<close>

record 'w Env =
  NewRequest :: "string \<Rightarrow> bool"
  Do :: "int \<Rightarrow> 'w \<Rightarrow> Request \<Rightarrow> Response option \<times> 'w"
  Parse :: "string \<Rightarrow> ParsedURL option"
  PublicSuffix :: "string \<Rightarrow> string"

section \<open>The probe engine\<close>

text \<open>
  How a call of \<open>checkCORS\<close> can stop before its last statement: the three early
  returns, and the run-time panic of an index out of range.
\<close>

datatype Stop = ErrNewRequest | ErrDo | ErrParse | PanicIndex

text \<open>
  What a call of \<open>checkCORS\<close> does: how it stopped (\<open>None\<close>: it reached its end), the
  values it sent on the \<open>results\<close> channel, the requests it handed to \<open>client.Do\<close>,
  in order, and the network it leaves behind.
\<close>

record 'w Outcome =
  stopped :: "Stop option"
  sent :: "CORSResult list"
  requests :: "Request list"
  network :: 'w

text \<open>The local variables of \<open>checkCORS\<close> between two probes.\<close>

record 'w Frame =
  world :: 'w
  issued :: "Request list"
  resp :: Response
  corsConfig :: CORSConfig
  vulnerable :: bool
  vulnerability :: string

definition msgWildcard :: string where
  "msgWildcard = ''Wildcard origin (*) is set, which can allow malicious scripts to make requests on behalf of the user.''"

definition msgNull :: string where
  "msgNull = ''Null origin is allowed, which can allow malicious scripts to make requests on behalf of the user.''"

definition msgSame :: string where
  "msgSame = ''Origin allows the same domain as the target URL, which can allow malicious scripts to make requests on behalf of the user.''"

definition msgDifferent :: string where
  "msgDifferent = ''Origin allows a different domain, which can allow malicious scripts to make requests on behalf of the user.''"

text \<open>\<open>xs[0]\<close>: Go panics on an empty slice.\<close>

definition index0 :: "'a list \<Rightarrow> 'a option" where
  "index0 xs = (case xs of [] \<Rightarrow> None | x # _ \<Rightarrow> Some x)"

definition abort :: "Stop \<Rightarrow> 'w \<Rightarrow> Request list \<Rightarrow> 'w Outcome" where
  "abort e w log = \<lparr> stopped = Some e, sent = [], requests = log, network = w \<rparr>"

text \<open>
  The verdict on the first response: the \<open>if\<close> / \<open>else if\<close> / \<open>else\<close> chain that
  follows the first parse. \<open>PublicSuffix\<close> is applied to the \<open>url\<close> argument itself.
\<close>

definition firstCheck :: "'w Env \<Rightarrow> string \<Rightarrow> CORSConfig \<Rightarrow> Stop + bool \<times> string" where
  "firstCheck env url cfg =
     (case index0 (AllowOrigins cfg) of
        None \<Rightarrow> Inl PanicIndex
      | Some ao \<Rightarrow>
          Inr (if ao = ''*'' then (True, msgWildcard)
               else if ao = ''null'' then (True, msgNull)
               else
                 (let eTLD = PublicSuffix env url
                  in if eTLD \<noteq> [] \<and> strings_HasSuffix ao eTLD then (True, msgSame)
                     else (False, []))))"

text \<open>First probe: \<open>Origin: null\<close>.\<close>

definition stage1 :: "'w Env \<Rightarrow> string \<Rightarrow> int \<Rightarrow> 'w \<Rightarrow> 'w Outcome + 'w Frame" where
  "stage1 env url to w0 =
     (if \<not> NewRequest env url then Inl (abort ErrNewRequest w0 [])
      else
        (let req = \<lparr> ReqURL = url, ReqOrigin = ''null'' \<rparr>;
             (r, w1) = Do env to w0 req
         in case r of
              None \<Rightarrow> Inl (abort ErrDo w1 [req])
            | Some rsp \<Rightarrow>
                (let cfg = parseConfig rsp
                 in case firstCheck env url cfg of
                      Inl e \<Rightarrow> Inl (abort e w1 [req])
                    | Inr (v, msg) \<Rightarrow>
                        Inr \<lparr> world = w1, issued = [req], resp = rsp, corsConfig = cfg,
                              vulnerable = v, vulnerability = msg \<rparr>)))"

text \<open>Second probe, only when nothing was found: \<open>Origin: http://example.com\<close>.\<close>

definition stage2 :: "'w Env \<Rightarrow> string \<Rightarrow> int \<Rightarrow> 'w Frame \<Rightarrow> 'w Outcome + 'w Frame" where
  "stage2 env url to f =
     (if vulnerable f then Inr f
      else if \<not> NewRequest env url then Inl (abort ErrNewRequest (world f) (issued f))
      else
        (let req = \<lparr> ReqURL = url, ReqOrigin = ''http://example.com'' \<rparr>;
             (r, w) = Do env to (world f) req;
             log = issued f @ [req]
         in case r of
              None \<Rightarrow> Inl (abort ErrDo w log)
            | Some rsp \<Rightarrow>
                (let cfg = parseConfig rsp;
                     f1 = f\<lparr> world := w, issued := log, resp := rsp, corsConfig := cfg \<rparr>
                 in case index0 (AllowOrigins cfg) of
                      None \<Rightarrow> Inl (abort PanicIndex w log)
                    | Some ao \<Rightarrow>
                        Inr (if ao = ''http://example.com''
                             then f1\<lparr> vulnerable := True, vulnerability := msgDifferent \<rparr>
                             else f1))))"

text \<open>
  Third probe, only when nothing was found: the target's own \<open>scheme://host\<close> as the
  origin.
\<close>

definition stage3 :: "'w Env \<Rightarrow> string \<Rightarrow> int \<Rightarrow> 'w Frame \<Rightarrow> 'w Outcome + 'w Frame" where
  "stage3 env url to f =
     (if vulnerable f then Inr f
      else
        (case Parse env url of
           None \<Rightarrow> Inl (abort ErrParse (world f) (issued f))
         | Some u \<Rightarrow>
             (if \<not> NewRequest env url then Inl (abort ErrNewRequest (world f) (issued f))
              else
                (let req = \<lparr> ReqURL = url, ReqOrigin = Scheme u @ ''://'' @ Host u \<rparr>;
                     (r, w) = Do env to (world f) req;
                     log = issued f @ [req]
                 in case r of
                      None \<Rightarrow> Inl (abort ErrDo w log)
                    | Some rsp \<Rightarrow>
                        (let cfg = parseConfig rsp;
                             f1 = f\<lparr> world := w, issued := log, resp := rsp, corsConfig := cfg \<rparr>
                         in case index0 (AllowOrigins cfg) of
                              None \<Rightarrow> Inl (abort PanicIndex w log)
                            | Some ao \<Rightarrow>
                                Inr (if ao = Scheme u @ ''://'' @ Host u
                                     then f1\<lparr> vulnerable := True, vulnerability := msgSame \<rparr>
                                     else f1))))))"

text \<open>The result is built from the last response read, and sent only when vulnerable.\<close>

definition finish :: "string \<Rightarrow> 'w Frame \<Rightarrow> 'w Outcome" where
  "finish url f =
     (let result = \<lparr> URL = url, StatusCode = RespStatusCode (resp f), CORSConfig = corsConfig f,
                      Vulnerable = vulnerable f, Vulnerability = vulnerability f \<rparr>
      in \<lparr> stopped = None, sent = (if vulnerable f then [result] else []),
           requests = issued f, network = world f \<rparr>)"

definition checkCORS :: "'w Env \<Rightarrow> string \<Rightarrow> int \<Rightarrow> 'w \<Rightarrow> 'w Outcome" where
  "checkCORS env url to w0 =
     (case stage1 env url to w0 of
        Inl out \<Rightarrow> out
      | Inr f1 \<Rightarrow>
          (case stage2 env url to f1 of
             Inl out \<Rightarrow> out
           | Inr f2 \<Rightarrow>
               (case stage3 env url to f2 of
                  Inl out \<Rightarrow> out
                | Inr f3 \<Rightarrow> finish url f3)))"

section \<open>The collector\<close>

text \<open>The four slices that \<open>main\<close> fills from the \<open>results\<close> channel.\<close>

record Buckets =
  nullOriginResults :: "CORSResult list"
  wildcardOriginResults :: "CORSResult list"
  domainOriginResults :: "CORSResult list"
  differentDomainResults :: "CORSResult list"

definition noBuckets :: Buckets where
  "noBuckets = \<lparr> nullOriginResults = [], wildcardOriginResults = [],
                  domainOriginResults = [], differentDomainResults = [] \<rparr>"

text \<open>The \<open>switch\<close> of the collecting loop: the first case that matches wins.\<close>

definition categorize :: "Buckets \<Rightarrow> CORSResult \<Rightarrow> Buckets" where
  "categorize b result =
     (if strings_Contains (Vulnerability result) ''Null origin''
        then b\<lparr> nullOriginResults := nullOriginResults b @ [result] \<rparr>
      else if strings_Contains (Vulnerability result) ''Wildcard origin''
        then b\<lparr> wildcardOriginResults := wildcardOriginResults b @ [result] \<rparr>
      else if strings_Contains (Vulnerability result) ''same domain''
        then b\<lparr> domainOriginResults := domainOriginResults b @ [result] \<rparr>
      else if strings_Contains (Vulnerability result) ''different domain''
        then b\<lparr> differentDomainResults := differentDomainResults b @ [result] \<rparr>
      else b)"

section \<open>The worker pool\<close>

text \<open>
  \<open>main\<close> starts \<open>concurrency\<close> workers, a goroutine that sends every element of
  \<open>urlList\<close> on \<open>urlChan\<close> and closes it, and a goroutine that closes \<open>results\<close>
  once the wait group is done; \<open>main\<close> itself receives from \<open>results\<close> until that
  channel is closed and empty. The pool is modelled as a transition system whose steps
  are the communication events, taken in any order that the channels allow.

  A worker is at the receive of its \<open>range urlChan\<close> loop, holds a received URL, or
  has left the loop (and called \<open>wg.Done\<close>). A URL travels with its position in
  \<open>urlList\<close>, which the program does not have: it tells two occurrences of one URL
  apart.
\<close>

datatype Worker = Waiting | Holding nat string | Exited

datatype Action =
    Distribute
  | CloseURLs
  | Receive nat
  | Run nat
  | Leave nat
  | CloseResults
  | Collect

record Pool =
  toSend :: "(nat \<times> string) list"
  urlChan :: "(nat \<times> string) list"
  urlChanClosed :: bool
  workers :: "Worker list"
  results :: "CORSResult list"
  resultsClosed :: bool
  buckets :: Buckets
  collected :: "CORSResult list"
  probed :: "(nat \<times> string) list"
  crashed :: bool

text \<open>
  The only data shared between workers are the two channels, so a call of \<open>checkCORS\<close>
  is one step (\<open>Run\<close>). What the network answers to the call for position \<open>i\<close> is given
  by a network state \<open>nets i\<close> of its own: the answers one call sees are then arbitrary
  and do not depend on the order in which the workers are scheduled. Both channels have
  capacity \<open>cap\<close>, the length of \<open>urlList\<close>; a send on a full channel is not enabled.
  A panic stops the whole program. \<open>probed\<close> lists the calls of \<open>checkCORS\<close>, and
  \<open>collected\<close> the values \<open>main\<close> has received, in order.
\<close>

definition step :: "'w Env \<Rightarrow> int \<Rightarrow> (nat \<Rightarrow> 'w) \<Rightarrow> nat \<Rightarrow> Pool \<Rightarrow> Action \<Rightarrow> Pool option" where
  "step env to nets cap c a =
     (if crashed c then None
      else
        (case a of
           Distribute \<Rightarrow>
             (case toSend c of
                [] \<Rightarrow> None
              | x # rest \<Rightarrow>
                  if length (urlChan c) < cap
                  then Some (c\<lparr> toSend := rest, urlChan := urlChan c @ [x] \<rparr>)
                  else None)
         | CloseURLs \<Rightarrow>
             if toSend c = [] \<and> \<not> urlChanClosed c
             then Some (c\<lparr> urlChanClosed := True \<rparr>)
             else None
         | Receive w \<Rightarrow>
             if w < length (workers c) \<and> workers c ! w = Waiting
             then (case urlChan c of
                     [] \<Rightarrow> None
                   | x # rest \<Rightarrow>
                       Some (c\<lparr> urlChan := rest,
                                workers := (workers c)[w := Holding (fst x) (snd x)] \<rparr>))
             else None
         | Run w \<Rightarrow>
             if w < length (workers c)
             then (case workers c ! w of
                     Holding i url \<Rightarrow>
                       if url \<noteq> []
                       then (let out = checkCORS env url to (nets i)
                             in if stopped out = Some PanicIndex
                                then Some (c\<lparr> crashed := True \<rparr>)
                                else if length (results c) + length (sent out) \<le> cap
                                then Some (c\<lparr> results := results c @ sent out,
                                              probed := probed c @ [(i, url)],
                                              workers := (workers c)[w := Waiting] \<rparr>)
                                else None)
                       else Some (c\<lparr> workers := (workers c)[w := Waiting] \<rparr>)
                   | _ \<Rightarrow> None)
             else None
         | Leave w \<Rightarrow>
             if w < length (workers c) \<and> workers c ! w = Waiting
                \<and> urlChan c = [] \<and> urlChanClosed c
             then Some (c\<lparr> workers := (workers c)[w := Exited] \<rparr>)
             else None
         | CloseResults \<Rightarrow>
             if list_all (\<lambda>w. w = Exited) (workers c) \<and> \<not> resultsClosed c
             then Some (c\<lparr> resultsClosed := True \<rparr>)
             else None
         | Collect \<Rightarrow>
             (case results c of
                [] \<Rightarrow> None
              | r # rest \<Rightarrow>
                  Some (c\<lparr> results := rest, buckets := categorize (buckets c) r,
                           collected := collected c @ [r] \<rparr>))))"

text \<open>A schedule is a list of actions; it runs as long as each action is enabled.\<close>

fun exec :: "'w Env \<Rightarrow> int \<Rightarrow> (nat \<Rightarrow> 'w) \<Rightarrow> nat \<Rightarrow> Pool \<Rightarrow> Action list \<Rightarrow> Pool option" where
  "exec env to nets cap c [] = Some c"
| "exec env to nets cap c (a # as) =
     (case step env to nets cap c a of
        None \<Rightarrow> None
      | Some c1 \<Rightarrow> exec env to nets cap c1 as)"

text \<open>
  The state in which \<open>main\<close> has made its channels and started its goroutines:
  \<open>concurrency\<close> workers (none when the flag is not positive), nothing sent yet.
\<close>

definition start :: "string list \<Rightarrow> int \<Rightarrow> Pool" where
  "start urlList concurrency =
     \<lparr> toSend = enumerate 0 urlList, urlChan = [], urlChanClosed = False,
       workers = replicate (nat concurrency) Waiting,
       results = [], resultsClosed = False, buckets = noBuckets, collected = [],
       probed = [], crashed = False \<rparr>"

text \<open>The collecting loop of \<open>main\<close> ends when \<open>results\<close> is closed and empty.\<close>

definition finished :: "Pool \<Rightarrow> bool" where
  "finished c = (\<not> crashed c \<and> resultsClosed c \<and> results c = [])"

text \<open>A run of the whole pool on a URL list.\<close>

definition pool :: "'w Env \<Rightarrow> int \<Rightarrow> (nat \<Rightarrow> 'w) \<Rightarrow> string list \<Rightarrow> int \<Rightarrow> Action list \<Rightarrow> Pool option" where
  "pool env to nets urlList concurrency schedule =
     exec env to nets (length urlList) (start urlList concurrency) schedule"

text \<open>The positions of \<open>urlList\<close> that hold a non-blank URL, and what their probes send.\<close>

definition nonBlank :: "string list \<Rightarrow> (nat \<times> string) list" where
  "nonBlank urlList = filter (\<lambda>x. snd x \<noteq> []) (enumerate 0 urlList)"

definition emitted :: "'w Env \<Rightarrow> int \<Rightarrow> (nat \<Rightarrow> 'w) \<Rightarrow> nat \<times> string \<Rightarrow> CORSResult list" where
  "emitted env to nets x = sent (checkCORS env (snd x) to (nets (fst x)))"

section \<open>The public suffix library\<close>

text \<open>
  \<open>golang.org/x/net/publicsuffix\<close> is a dependency of the program, not part of it. The
  probe engine above is verified for any function in its place (the field
  \<open>PublicSuffix\<close> of the environment). To run the engine on concrete URLs, the lookup
  of the library is modelled here, with the compiled table as a parameter: a tree of
  labels, read from the last label of the argument towards the first, the labels being
  what lies between two dots. Where no rule matches, the result is the last label.
\<close>

datatype NodeType = nodeTypeNormal | nodeTypeException | nodeTypeParentOnly

datatype Node = Node (label: string) (nodeType: NodeType) (wildcard: bool) (children: "Node list")

text \<open>\<open>strings.LastIndexByte\<close>: the index of the last occurrence, or \<open>-1\<close>.\<close>

definition strings_LastIndexByte :: "string \<Rightarrow> char \<Rightarrow> int" where
  "strings_LastIndexByte s c =
     (if c \<in> set s then int (length s) - 1 - int (length (takeWhile (\<lambda>x. x \<noteq> c) (rev s)))
      else - 1)"

function PublicSuffix_loop :: "Node list \<Rightarrow> string \<Rightarrow> nat \<Rightarrow> bool \<Rightarrow> nat" where
  "PublicSuffix_loop nodes s sfx wild =
     (let dot = strings_LastIndexByte s (CHR ''.'');
          sfx1 = (if wild then nat (1 + dot) else sfx)
      in if nodes = [] then sfx1
         else
           (case find (\<lambda>n. label n = drop (nat (1 + dot)) s) nodes of
              None \<Rightarrow> sfx1
            | Some f \<Rightarrow>
                if nodeType f = nodeTypeException then 1 + length s
                else
                  (let sfx2 = (if nodeType f = nodeTypeNormal then nat (1 + dot) else sfx1)
                   in if dot = - 1 then sfx2
                      else PublicSuffix_loop (children f) (take (nat dot) s) sfx2 (wildcard f))))"
  by pat_completeness auto
termination
proof (relation "measure (\<lambda>(nodes, s, sfx, wild). length s)")
  show "wf (measure (\<lambda>(nodes, s, sfx, wild). length s))"
    by simp
next
  fix nodes :: "Node list" and s :: string and sfx :: nat and wild :: bool
    and dot :: int and sfx1 :: nat and f :: Node and sfx2 :: nat
  assume dot: "dot = strings_LastIndexByte s (CHR ''.'')" and "dot \<noteq> - 1"
  then have "CHR ''.'' \<in> set s"
    by (simp add: strings_LastIndexByte_def split: if_splits)
  then have "0 < length s"
    by (cases s) auto
  then have "nat (int (length s) - 1 - int k) < length s" for k
    by arith
  with \<open>CHR ''.'' \<in> set s\<close> dot have "nat dot < length s"
    by (simp only: strings_LastIndexByte_def if_True)
  then show "((children f, take (nat dot) s, sfx2, wildcard f), (nodes, s, sfx, wild))
      \<in> measure (\<lambda>(nodes, s, sfx, wild). length s)"
    by simp
qed

declare PublicSuffix_loop.simps [simp del]

definition PublicSuffix_lookup :: "Node list \<Rightarrow> string \<Rightarrow> string" where
  "PublicSuffix_lookup table domain =
     (let sfx = PublicSuffix_loop table domain (length domain) False
      in if sfx = length domain
         then drop (nat (1 + strings_LastIndexByte domain (CHR ''.''))) domain
         else drop sfx domain)"

text \<open>A few rules of the list: \<open>com\<close>, \<open>uk\<close>, \<open>co.uk\<close>, \<open>*.ck\<close>, \<open>!www.ck\<close>.\<close>

definition someRules :: "Node list" where
  "someRules =
     [Node ''ck'' nodeTypeParentOnly True [Node ''www'' nodeTypeException False []],
      Node ''com'' nodeTypeNormal False [],
      Node ''uk'' nodeTypeNormal False [Node ''co'' nodeTypeNormal False []]]"

section \<open>Example environments\<close>

text \<open>
  Servers that answer by the request alone, on a network without state; used to run the
  model on concrete inputs.
\<close>

definition answer :: "int \<Rightarrow> (string \<times> string) list \<Rightarrow> Response" where
  "answer code hs =
     \<lparr> RespStatusCode = code, RespHeader = map_of (map (\<lambda>(k, v). (k, [v])) hs) \<rparr>"

definition staticEnv ::
    "(Request \<Rightarrow> Response option) \<Rightarrow> (string \<Rightarrow> ParsedURL option) \<Rightarrow> unit Env" where
  "staticEnv server parse =
     \<lparr> NewRequest = (\<lambda>url. parse url \<noteq> None),
       Do = (\<lambda>to w req. (server req, w)),
       Parse = parse,
       PublicSuffix = PublicSuffix_lookup someRules \<rparr>"

definition wildcardServer :: "Request \<Rightarrow> Response option" where
  "wildcardServer req = Some (answer 200 [(''Access-Control-Allow-Origin'', ''*'')])"

definition reflectingServer :: "Request \<Rightarrow> Response option" where
  "reflectingServer req =
     (if ReqOrigin req = ''http://example.com''
      then Some (answer 200 [(''Access-Control-Allow-Origin'', ReqOrigin req)])
      else Some (answer 200 []))"

definition plainServer :: "Request \<Rightarrow> Response option" where
  "plainServer req = Some (answer 404 [])"

definition fixedOriginServer :: "Request \<Rightarrow> Response option" where
  "fixedOriginServer req =
     Some (answer 200 [(''Access-Control-Allow-Origin'', ''https://evil.com'')])"

text \<open>A server that answers requests from the listed origins only, with no CORS header.\<close>

definition answersOnlyTo :: "string list \<Rightarrow> Request \<Rightarrow> Response option" where
  "answersOnlyTo origins req =
     (if ReqOrigin req \<in> set origins then Some (answer 200 []) else None)"

text \<open>One host that does not answer, beside hosts that allow every origin.\<close>

definition mixedServer :: "Request \<Rightarrow> Response option" where
  "mixedServer req =
     (if ReqURL req = ''http://down.test'' then None else wildcardServer req)"

text \<open>
  What \<open>url.Parse\<close> finds in the URLs of the examples. The one other string it is asked
  for is \<open>::bad\<close>, which \<open>url.Parse\<close> rejects for its missing scheme.
\<close>

definition parseExamples :: "string \<Rightarrow> ParsedURL option" where
  "parseExamples url =
     (if url = ''http://target.test'' then Some \<lparr> Scheme = ''http'', Host = ''target.test'' \<rparr>
      else if url = ''http://down.test'' then Some \<lparr> Scheme = ''http'', Host = ''down.test'' \<rparr>
      else if url = ''https://example.com/'' then Some \<lparr> Scheme = ''https'', Host = ''example.com'' \<rparr>
      else if url = ''https://example.com'' then Some \<lparr> Scheme = ''https'', Host = ''example.com'' \<rparr>
      else None)"

text \<open>
  An environment in which a request can be built for a URL that does not parse. With
  the real libraries there is none: \<open>http.NewRequest\<close> parses its URL with
  \<open>url.Parse\<close> and fails exactly when that fails, so the return after \<open>url.Parse\<close>
  in the third probe cannot be reached by the running program. The environment serves
  only to reach that return in the model.
\<close>

definition unparsedEnv :: "(Request \<Rightarrow> Response option) \<Rightarrow> unit Env" where
  "unparsedEnv server = (staticEnv server parseExamples)\<lparr> NewRequest := (\<lambda>url. True) \<rparr>"

definition noNets :: "nat \<Rightarrow> unit" where
  "noNets i = ()"

text \<open>
  Two workers, three lines (the second one blank), and one order in which the
  goroutines may run.
\<close>

definition exampleURLs :: "string list" where
  "exampleURLs = [''http://down.test'', [], ''http://target.test'']"

definition exampleSchedule :: "Action list" where
  "exampleSchedule =
     [Distribute, Distribute, Receive 0, Receive 1, Distribute, CloseURLs, Run 1, Receive 1,
      Run 1, Run 0, Collect, Leave 0, Leave 1, CloseResults]"

text \<open>The result of probing the second host, and the state in which that run ends.\<close>

definition wildcardResult :: CORSResult where
  "wildcardResult =
     \<lparr> URL = ''http://target.test'', StatusCode = 200,
       CORSConfig = \<lparr> AllowOrigins = [''*''], AllowMethods = [], AllowHeaders = [],
                      ExposeHeaders = [], MaxAge = 0, AllowCredentials = [] \<rparr>,
       Vulnerable = True, Vulnerability = msgWildcard \<rparr>"

definition exampleFinal :: Pool where
  "exampleFinal =
     \<lparr> toSend = [], urlChan = [], urlChanClosed = True, workers = [Exited, Exited],
       results = [], resultsClosed = True,
       buckets = noBuckets\<lparr> wildcardOriginResults := [wildcardResult] \<rparr>,
       collected = [wildcardResult],
       probed = [(2, ''http://target.test''), (0, ''http://down.test'')],
       crashed = False \<rparr>"

section \<open>Reference definitions\<close>

text \<open>
  The pieces of a split, put together again with the separator between them: splitting
  is the inverse of this on lists of pieces that do not hold the separator.
\<close>

fun joinWith :: "char \<Rightarrow> string list \<Rightarrow> string" where
  "joinWith sep [] = []"
| "joinWith sep [p] = p"
| "joinWith sep (p # q # ps) = p @ sep # joinWith sep (q # ps)"

text \<open>
  What \<open>MaxAge\<close> is, said without the loops of \<open>strconv\<close>. Strip one leading
  \<open>+\<close> or \<open>-\<close> from the header value, and let \<open>n\<close> be the number that the longest
  run of decimal digits at the start of the rest denotes. The result is zero when nothing
  is left after the sign, and when a byte that is not a digit follows the run while
  \<open>n\<close> is below \<open>2 ^ 64\<close>. Otherwise it is \<open>n\<close>, negated under \<open>-\<close>, when that
  lies in the range of a 64-bit \<open>int\<close>, and else the bound of the range on that side.
\<close>

definition isDigit :: "char \<Rightarrow> bool" where
  "isDigit c = (48 \<le> (of_char c :: nat) \<and> (of_char c :: nat) \<le> 57)"

fun decimalFrom :: "nat \<Rightarrow> string \<Rightarrow> nat" where
  "decimalFrom n [] = n"
| "decimalFrom n (c # cs) = decimalFrom (n * 10 + (of_char c - 48)) cs"

definition decimal :: "string \<Rightarrow> nat" where
  "decimal ds = decimalFrom 0 ds"

definition unsignedPart :: "string \<Rightarrow> string" where
  "unsignedPart s = (if s \<noteq> [] \<and> (hd s = CHR ''+'' \<or> hd s = CHR ''-'') then tl s else s)"

definition clampedValue :: "bool \<Rightarrow> string \<Rightarrow> int" where
  "clampedValue neg body =
     (let ds = takeWhile isDigit body;
          n = decimal ds
      in if body = [] \<or> (ds \<noteq> body \<and> n < 2 ^ 64) then 0
         else if neg then (if 2 ^ 63 < n then minInt64 else - int n)
         else (if 2 ^ 63 \<le> n then maxInt64 else int n))"

definition maxAgeRef :: "string \<Rightarrow> int" where
  "maxAgeRef s = clampedValue (s \<noteq> [] \<and> hd s = CHR ''-'') (unsignedPart s)"

section \<open>Ghost definitions for the pool's invariant\<close>

text \<open>The URL a worker holds, and all URLs that are not yet dealt with.\<close>

fun held :: "Worker \<Rightarrow> (nat \<times> string) multiset" where
  "held (Holding i url) = {#(i, url)#}"
| "held Waiting = {#}"
| "held Exited = {#}"

definition inFlight :: "Pool \<Rightarrow> (nat \<times> string) multiset" where
  "inFlight c = mset (toSend c) + mset (urlChan c) + (\<Sum>w\<leftarrow>workers c. held w)"

definition pool_inv :: "'w Env \<Rightarrow> int \<Rightarrow> (nat \<Rightarrow> 'w) \<Rightarrow> string list \<Rightarrow> Pool \<Rightarrow> bool" where
  "pool_inv env to nets urlList c =
     (\<not> crashed c
      \<and> mset (nonBlank urlList) = filter_mset (\<lambda>x. snd x \<noteq> []) (inFlight c) + mset (probed c)
      \<and> mset (results c) + mset (collected c)
          = (\<Sum>x\<in>#mset (probed c). mset (emitted env to nets x))
      \<and> (urlChanClosed c \<longrightarrow> toSend c = [])
      \<and> (Exited \<in> set (workers c) \<longrightarrow> urlChanClosed c \<and> urlChan c = [])
      \<and> (resultsClosed c \<longrightarrow> list_all (\<lambda>w. w = Exited) (workers c))
      \<and> length (toSend c) + length (urlChan c) \<le> length urlList)"

text \<open>
  A measure that every step of the pool decreases: what is left to send, to receive, to
  probe and to collect.
\<close>

fun cost :: "Worker \<Rightarrow> nat" where
  "cost (Holding i url) = 3"
| "cost Waiting = 1"
| "cost Exited = 0"

definition weight :: "Pool \<Rightarrow> nat" where
  "weight c = 6 * length (toSend c) + 5 * length (urlChan c) + (\<Sum>w\<leftarrow>workers c. cost w)
     + length (results c) + (if urlChanClosed c then 0 else 1)
     + (if resultsClosed c then 0 else 1)"

text \<open>
  The four substrings the collector looks for, in the order of its \<open>switch\<close>; the four
  descriptions the probe engine writes; the four slices taken together; and what holds of
  every value on its way from a probe to a slice.
\<close>

definition categories :: "string list" where
  "categories = [''Null origin'', ''Wildcard origin'', ''same domain'', ''different domain'']"

definition messages :: "string list" where
  "messages = [msgNull, msgWildcard, msgSame, msgDifferent]"

definition allBuckets :: "Buckets \<Rightarrow> CORSResult list" where
  "allBuckets b = nullOriginResults b @ wildcardOriginResults b @ domainOriginResults b
     @ differentDomainResults b"

definition bucket_inv :: "Pool \<Rightarrow> bool" where
  "bucket_inv c =
     ((\<forall>r\<in>set (results c). Vulnerable r \<and> Vulnerability r \<in> set messages)
      \<and> (\<forall>r\<in>set (collected c). Vulnerable r)
      \<and> mset (allBuckets (buckets c)) = mset (collected c))"

section \<open>Properties of the probe engine\<close>

lemma index0_parseConfig:
  "index0 (AllowOrigins (parseConfig rsp))
     = Some (Header_Get (RespHeader rsp) ''Access-Control-Allow-Origin'')"
  by (simp add: index0_def parseConfig_def)

lemma firstCheck_parseConfig:
  "firstCheck env url (parseConfig rsp) =
     Inr (let ao = Header_Get (RespHeader rsp) ''Access-Control-Allow-Origin'' in
          if ao = ''*'' then (True, msgWildcard)
          else if ao = ''null'' then (True, msgNull)
          else if PublicSuffix env url \<noteq> [] \<and> strings_HasSuffix ao (PublicSuffix env url)
               then (True, msgSame) else (False, []))"
  by (simp add: firstCheck_def index0_parseConfig Let_def)

text \<open>An early exit of a stage is one of the three error returns and sends nothing.\<close>

lemma stage1_Inl:
  "stage1 env url to w = Inl out \<Longrightarrow>
     stopped out \<noteq> None \<and> stopped out \<noteq> Some PanicIndex \<and> sent out = []"
  by (auto simp: stage1_def abort_def Let_def firstCheck_parseConfig
      split: if_splits prod.splits option.splits sum.splits)

lemma stage2_Inl:
  "stage2 env url to f = Inl out \<Longrightarrow>
     stopped out \<noteq> None \<and> stopped out \<noteq> Some PanicIndex \<and> sent out = []"
  by (auto simp: stage2_def abort_def Let_def index0_parseConfig
      split: if_splits prod.splits option.splits sum.splits)

lemma stage3_Inl:
  "stage3 env url to f = Inl out \<Longrightarrow>
     stopped out \<noteq> None \<and> stopped out \<noteq> Some PanicIndex \<and> sent out = []"
  by (auto simp: stage3_def abort_def Let_def index0_parseConfig
      split: if_splits prod.splits option.splits sum.splits)

lemma checkCORS_no_panic: "stopped (checkCORS env url to w) \<noteq> Some PanicIndex"
  by (auto simp: checkCORS_def finish_def Let_def split: sum.splits
      dest: stage1_Inl stage2_Inl stage3_Inl)

lemma sent_Vulnerable: "r \<in> set (sent (checkCORS env url to w)) \<Longrightarrow> Vulnerable r"
  by (auto simp: checkCORS_def finish_def Let_def split: sum.splits if_splits
      dest: stage1_Inl stage2_Inl stage3_Inl)

lemma sent_at_most_one: "length (sent (checkCORS env url to w)) \<le> 1"
  by (auto simp: checkCORS_def finish_def Let_def split: sum.splits if_splits
      dest: stage1_Inl stage2_Inl stage3_Inl)

section \<open>Properties of the pool\<close>

lemma held_update:
  "w < length ws \<Longrightarrow> (\<Sum>x\<leftarrow>ws[w := v]. held x) + held (ws ! w) = (\<Sum>x\<leftarrow>ws. held x) + held v"
proof (induction ws arbitrary: w)
  case Nil
  then show ?case by simp
next
  case (Cons a ws)
  show ?case
  proof (cases w)
    case 0
    then show ?thesis by (simp add: ac_simps)
  next
    case (Suc k)
    with Cons.prems have "k < length ws" by simp
    from Cons.IH [OF this] Suc show ?thesis by (simp add: ac_simps)
  qed
qed

lemma held_update_Waiting:
  "w < length ws \<Longrightarrow> ws ! w = Waiting \<Longrightarrow> (\<Sum>x\<leftarrow>ws[w := v]. held x) = (\<Sum>x\<leftarrow>ws. held x) + held v"
  using held_update [of w ws v] by simp

lemma held_update_Holding:
  "w < length ws \<Longrightarrow> ws ! w = Holding i url \<Longrightarrow>
   (\<Sum>x\<leftarrow>ws. held x) = (\<Sum>x\<leftarrow>ws[w := Waiting]. held x) + {#(i, url)#}"
  using held_update [of w ws Waiting] by simp

lemma Exited_update:
  "Exited \<in> set (ws[w := v]) \<Longrightarrow> v \<noteq> Exited \<Longrightarrow> Exited \<in> set ws"
  by (metis insertE set_update_subset_insert subsetD)

lemma all_Exited_nth:
  "list_all (\<lambda>w. w = Exited) ws \<Longrightarrow> w < length ws \<Longrightarrow> ws ! w = Exited"
  by (simp add: list_all_length)

text \<open>The invariant holds at the start and is kept by every step.\<close>

lemma start_inv: "pool_inv env to nets urlList (start urlList n)"
  by (simp add: pool_inv_def start_def inFlight_def nonBlank_def)


lemma step_DistributeE:
  assumes "step env to nets cap c Distribute = Some c1"
  obtains x rest where "toSend c = x # rest" "length (urlChan c) < cap" "\<not> crashed c"
    "c1 = c\<lparr> toSend := rest, urlChan := urlChan c @ [x] \<rparr>"
  using assms by (auto simp: step_def split: if_splits list.splits)

lemma step_CloseURLsE:
  assumes "step env to nets cap c CloseURLs = Some c1"
  obtains "toSend c = []" "\<not> urlChanClosed c" "\<not> crashed c" "c1 = c\<lparr> urlChanClosed := True \<rparr>"
  using assms by (auto simp: step_def split: if_splits)

lemma step_ReceiveE:
  assumes "step env to nets cap c (Receive w) = Some c1"
  obtains x rest where "w < length (workers c)" "workers c ! w = Waiting" "urlChan c = x # rest"
    "\<not> crashed c" "c1 = c\<lparr> urlChan := rest, workers := (workers c)[w := Holding (fst x) (snd x)] \<rparr>"
  using assms by (auto simp: step_def split: if_splits list.splits)

lemma step_RunE:
  assumes "step env to nets cap c (Run w) = Some c1"
  obtains (Crash) i url where "w < length (workers c)" "workers c ! w = Holding i url" "url \<noteq> []"
      "stopped (checkCORS env url to (nets i)) = Some PanicIndex" "c1 = c\<lparr> crashed := True \<rparr>"
  | (Probe) i url where "w < length (workers c)" "workers c ! w = Holding i url" "url \<noteq> []"
      "\<not> crashed c"
      "length (results c) + length (sent (checkCORS env url to (nets i))) \<le> cap"
      "c1 = c\<lparr> results := results c @ sent (checkCORS env url to (nets i)),
                 probed := probed c @ [(i, url)], workers := (workers c)[w := Waiting] \<rparr>"
  | (Skip) i where "w < length (workers c)" "workers c ! w = Holding i []" "\<not> crashed c"
      "c1 = c\<lparr> workers := (workers c)[w := Waiting] \<rparr>"
  using assms by (auto simp: step_def Let_def split: if_splits Worker.splits)

lemma step_LeaveE:
  assumes "step env to nets cap c (Leave w) = Some c1"
  obtains "w < length (workers c)" "workers c ! w = Waiting" "urlChan c = []" "urlChanClosed c"
    "\<not> crashed c" "c1 = c\<lparr> workers := (workers c)[w := Exited] \<rparr>"
  using assms by (auto simp: step_def split: if_splits)

lemma step_CloseResultsE:
  assumes "step env to nets cap c CloseResults = Some c1"
  obtains "list_all (\<lambda>w. w = Exited) (workers c)" "\<not> resultsClosed c" "\<not> crashed c"
    "c1 = c\<lparr> resultsClosed := True \<rparr>"
  using assms by (auto simp: step_def split: if_splits)

lemma step_CollectE:
  assumes "step env to nets cap c Collect = Some c1"
  obtains r rest where "results c = r # rest" "\<not> crashed c"
    "c1 = c\<lparr> results := rest, buckets := categorize (buckets c) r, collected := collected c @ [r] \<rparr>"
  using assms by (auto simp: step_def split: if_splits list.splits)


lemma step_inv:
  assumes inv: "pool_inv env to nets urlList c" and st: "step env to nets cap c a = Some c1"
  shows "pool_inv env to nets urlList c1"
proof (cases a)
  case Distribute
  with st have "step env to nets cap c Distribute = Some c1" by simp
  then show ?thesis
    by (elim step_DistributeE) (use inv in \<open>auto simp: pool_inv_def inFlight_def\<close>)
next
  case CloseURLs
  with st have "step env to nets cap c CloseURLs = Some c1" by simp
  then show ?thesis
    by (elim step_CloseURLsE) (use inv in \<open>auto simp: pool_inv_def inFlight_def\<close>)
next
  case (Receive w)
  with st have "step env to nets cap c (Receive w) = Some c1" by simp
  then show ?thesis
    by (elim step_ReceiveE) (use inv in \<open>auto simp: pool_inv_def inFlight_def held_update_Waiting dest: Exited_update all_Exited_nth\<close>)
next
  case (Run w)
  with st have "step env to nets cap c (Run w) = Some c1" by simp
  then show ?thesis
  proof (cases rule: step_RunE)
    case (Crash i url)
    then show ?thesis by (simp add: checkCORS_no_panic)
  next
    case (Probe i url)
    from Probe(1,2) have h: "(\<Sum>x\<leftarrow>workers c. held x)
        = (\<Sum>x\<leftarrow>(workers c)[w := Waiting]. held x) + {#(i, url)#}"
      by (rule held_update_Holding)
    from inv Probe(1,2) have nc: "\<not> resultsClosed c"
      by (auto simp: pool_inv_def dest: all_Exited_nth)
    from inv Probe h nc show ?thesis
      by (auto simp: pool_inv_def inFlight_def emitted_def dest: Exited_update)
  next
    case (Skip i)
    from Skip(1,2) have h: "(\<Sum>x\<leftarrow>workers c. held x)
        = (\<Sum>x\<leftarrow>(workers c)[w := Waiting]. held x) + {#(i, [])#}"
      by (rule held_update_Holding)
    from inv Skip(1,2) have nc: "\<not> resultsClosed c"
      by (auto simp: pool_inv_def dest: all_Exited_nth)
    from inv Skip h nc show ?thesis
      by (auto simp: pool_inv_def inFlight_def dest: Exited_update)
  qed
next
  case (Leave w)
  with st have "step env to nets cap c (Leave w) = Some c1" by simp
  then show ?thesis
    by (elim step_LeaveE) (use inv in \<open>auto simp: pool_inv_def inFlight_def held_update_Waiting dest: all_Exited_nth\<close>)
next
  case CloseResults
  with st have "step env to nets cap c CloseResults = Some c1" by simp
  then show ?thesis
    by (elim step_CloseResultsE) (use inv in \<open>auto simp: pool_inv_def inFlight_def\<close>)
next
  case Collect
  with st have "step env to nets cap c Collect = Some c1" by simp
  then show ?thesis
    by (elim step_CollectE) (use inv in \<open>auto simp: pool_inv_def inFlight_def\<close>)
qed

text \<open>Runs of the pool keep the invariant.\<close>

lemma exec_inv:
  "pool_inv env to nets urlList c \<Longrightarrow> exec env to nets cap c sched = Some c1 \<Longrightarrow>
   pool_inv env to nets urlList c1"
proof (induction sched arbitrary: c)
  case Nil
  then show ?case by simp
next
  case (Cons a sched)
  then show ?case
    by (auto split: option.splits dest: step_inv)
qed

lemma exec_append:
  "exec env to nets cap c (xs @ ys) =
     (case exec env to nets cap c xs of None \<Rightarrow> None | Some c1 \<Rightarrow> exec env to nets cap c1 ys)"
  by (induction xs arbitrary: c) (auto split: option.splits)

lemma step_workers_length:
  "step env to nets cap c a = Some c1 \<Longrightarrow> length (workers c1) = length (workers c)"
  by (cases a) (auto elim!: step_DistributeE step_CloseURLsE step_ReceiveE step_RunE step_LeaveE
      step_CloseResultsE step_CollectE)

lemma exec_workers_length:
  "exec env to nets cap c sched = Some c1 \<Longrightarrow> length (workers c1) = length (workers c)"
  by (induction sched arbitrary: c) (auto split: option.splits dest: step_workers_length)

lemma mset_concat_map:
  "mset (concat (map f xs)) = (\<Sum>x\<in>#mset xs. mset (f x))"
  by (induction xs) auto

lemma all_Exited_held:
  "list_all (\<lambda>w. w = Exited) ws \<Longrightarrow> (\<Sum>w\<leftarrow>ws. held w) = {#}"
  by (induction ws) auto

lemma all_Exited_mem:
  "list_all (\<lambda>w. w = Exited) ws \<Longrightarrow> ws \<noteq> [] \<Longrightarrow> Exited \<in> set ws"
  by (cases ws) auto

lemma finished_complete:
  assumes inv: "pool_inv env to nets urlList c" and fin: "finished c" and ws: "workers c \<noteq> []"
  shows "mset (probed c) = mset (nonBlank urlList)"
    and "mset (collected c) = mset (concat (map (emitted env to nets) (nonBlank urlList)))"
proof -
  from inv fin have ex: "list_all (\<lambda>w. w = Exited) (workers c)"
    by (simp add: pool_inv_def finished_def)
  from ex ws have "Exited \<in> set (workers c)" by (rule all_Exited_mem)
  with inv have "urlChan c = []" "toSend c = []"
    by (auto simp: pool_inv_def)
  with ex have "inFlight c = {#}"
    by (simp add: inFlight_def all_Exited_held)
  with inv show p: "mset (probed c) = mset (nonBlank urlList)"
    by (simp add: pool_inv_def)
  from inv fin have "mset (collected c) = (\<Sum>x\<in>#mset (probed c). mset (emitted env to nets x))"
    by (simp add: pool_inv_def finished_def)
  with p show "mset (collected c) = mset (concat (map (emitted env to nets) (nonBlank urlList)))"
    by (simp add: mset_concat_map)
qed

text \<open>Every step makes the pool's weight smaller, so every run is finite.\<close>

lemma cost_update:
  "w < length ws \<Longrightarrow> (\<Sum>x\<leftarrow>ws[w := v]. cost x) + cost (ws ! w) = (\<Sum>x\<leftarrow>ws. cost x) + cost v"
proof (induction ws arbitrary: w)
  case Nil
  then show ?case by simp
next
  case (Cons a ws)
  show ?case
  proof (cases w)
    case 0
    then show ?thesis by simp
  next
    case (Suc k)
    with Cons.prems have "k < length ws" by simp
    from Cons.IH [OF this] Suc show ?thesis by simp
  qed
qed

lemma step_weight:
  assumes "step env to nets cap c a = Some c1"
  shows "weight c1 < weight c"
proof (cases a)
  case Distribute
  with assms have "step env to nets cap c Distribute = Some c1" by simp
  then show ?thesis by (elim step_DistributeE) (simp add: weight_def)
next
  case CloseURLs
  with assms have "step env to nets cap c CloseURLs = Some c1" by simp
  then show ?thesis by (elim step_CloseURLsE) (simp add: weight_def)
next
  case (Receive w)
  with assms have "step env to nets cap c (Receive w) = Some c1" by simp
  then show ?thesis
  proof (rule step_ReceiveE)
    fix x rest
    assume h: "w < length (workers c)" "workers c ! w = Waiting" "urlChan c = x # rest"
      "c1 = c\<lparr> urlChan := rest, workers := (workers c)[w := Holding (fst x) (snd x)] \<rparr>"
    from cost_update [OF h(1), of "Holding (fst x) (snd x)"] h(2)
    have "(\<Sum>x\<leftarrow>(workers c)[w := Holding (fst x) (snd x)]. cost x) + 1 = (\<Sum>x\<leftarrow>workers c. cost x) + 3"
      by simp
    with h show ?thesis by (simp add: weight_def)
  qed
next
  case (Run w)
  with assms have "step env to nets cap c (Run w) = Some c1" by simp
  then show ?thesis
  proof (cases rule: step_RunE)
    case (Crash i url)
    then show ?thesis by (simp add: checkCORS_no_panic)
  next
    case (Probe i url)
    from cost_update [OF Probe(1), of Waiting] Probe(2)
    have "(\<Sum>x\<leftarrow>(workers c)[w := Waiting]. cost x) + 3 = (\<Sum>x\<leftarrow>workers c. cost x) + 1"
      by simp
    with Probe sent_at_most_one [of env url to "nets i"] show ?thesis
      by (simp add: weight_def)
  next
    case (Skip i)
    from cost_update [OF Skip(1), of Waiting] Skip(2)
    have "(\<Sum>x\<leftarrow>(workers c)[w := Waiting]. cost x) + 3 = (\<Sum>x\<leftarrow>workers c. cost x) + 1"
      by simp
    with Skip show ?thesis by (simp add: weight_def)
  qed
next
  case (Leave w)
  with assms have "step env to nets cap c (Leave w) = Some c1" by simp
  then show ?thesis
  proof (rule step_LeaveE)
    assume h: "w < length (workers c)" "workers c ! w = Waiting"
      "c1 = c\<lparr> workers := (workers c)[w := Exited] \<rparr>"
    from cost_update [OF h(1), of Exited] h(2)
    have "(\<Sum>x\<leftarrow>(workers c)[w := Exited]. cost x) + 1 = (\<Sum>x\<leftarrow>workers c. cost x)"
      by simp
    with h show ?thesis by (simp add: weight_def)
  qed
next
  case CloseResults
  with assms have "step env to nets cap c CloseResults = Some c1" by simp
  then show ?thesis by (elim step_CloseResultsE) (simp add: weight_def)
next
  case Collect
  with assms have "step env to nets cap c Collect = Some c1" by simp
  then show ?thesis by (elim step_CollectE) (simp add: weight_def)
qed

lemma exec_weight:
  "exec env to nets cap c sched = Some c1 \<Longrightarrow> length sched + weight c1 \<le> weight c"
proof (induction sched arbitrary: c)
  case Nil
  then show ?case by simp
next
  case (Cons a sched)
  then obtain c2 where s: "step env to nets cap c a = Some c2"
    and e: "exec env to nets cap c2 sched = Some c1"
    by (auto split: option.splits)
  from Cons.IH [OF e] step_weight [OF s] show ?case by simp
qed

text \<open>
  No deadlock: as long as \<open>main\<close> has not left its collecting loop, some step is
  enabled. In particular no send ever finds its channel full.
\<close>

lemma size_emitted_le:
  "size (\<Sum>x\<in>#M. mset (emitted env to nets x)) \<le> size M"
proof (induction M)
  case empty
  then show ?case by simp
next
  case (add x M)
  have "length (emitted env to nets x) \<le> 1"
    unfolding emitted_def by (rule sent_at_most_one)
  with add show ?case by simp
qed

lemma held_member:
  "w < length ws \<Longrightarrow> ws ! w = Holding i url \<Longrightarrow> (i, url) \<in># (\<Sum>x\<leftarrow>ws. held x)"
  using held_update_Holding [of w ws i url] by simp

lemma length_nonBlank: "length (nonBlank urlList) \<le> length urlList"
proof -
  have "length (nonBlank urlList) \<le> length (enumerate 0 urlList)"
    unfolding nonBlank_def by (rule length_filter_le)
  then show ?thesis by simp
qed

lemma workers_cases:
  obtains (Holds) w i url where "w < length ws" "ws ! w = Holding i url"
  | (Waits) w where "w < length ws" "ws ! w = Waiting"
  | (Gone) "list_all (\<lambda>w. w = Exited) ws"
proof (cases "list_all (\<lambda>w. w = Exited) ws")
  case True
  then show ?thesis by (rule Gone)
next
  case False
  then obtain w where w: "w < length ws" "ws ! w \<noteq> Exited"
    by (auto simp: list_all_length)
  then show ?thesis
    by (cases "ws ! w") (auto intro: Holds Waits)
qed

lemma room_for_result:
  assumes inv: "pool_inv env to nets urlList c"
    and w: "w < length (workers c)" "workers c ! w = Holding i url" "url \<noteq> []"
  shows "length (results c) + length (sent (checkCORS env url to (nets i))) \<le> length urlList"
proof -
  from w(1,2) have "(i, url) \<in># (\<Sum>x\<leftarrow>workers c. held x)" by (rule held_member)
  with w(3) have "(i, url) \<in># filter_mset (\<lambda>x. snd x \<noteq> []) (inFlight c)"
    by (simp add: inFlight_def)
  then have "1 \<le> size (filter_mset (\<lambda>x. snd x \<noteq> []) (inFlight c))"
    by (metis One_nat_def Suc_leI gr0I multi_member_last nonempty_has_size size_eq_0_iff_empty empty_iff set_mset_empty)
  moreover from inv have "size (mset (nonBlank urlList))
      = size (filter_mset (\<lambda>x. snd x \<noteq> []) (inFlight c)) + size (mset (probed c))"
    by (simp add: pool_inv_def)
  ultimately have "length (probed c) + 1 \<le> length (nonBlank urlList)" by simp
  with length_nonBlank [of urlList] have p: "length (probed c) + 1 \<le> length urlList" by simp
  from inv have "size (mset (results c) + mset (collected c))
      = size (\<Sum>x\<in>#mset (probed c). mset (emitted env to nets x))"
    by (simp add: pool_inv_def)
  with size_emitted_le [of env to nets "mset (probed c)"]
  have "length (results c) \<le> length (probed c)" by simp
  with p sent_at_most_one [of env url to "nets i"] show ?thesis by simp
qed

lemma progress:
  assumes inv: "pool_inv env to nets urlList c" and nf: "\<not> finished c"
  shows "\<exists>a c1. step env to nets (length urlList) c a = Some c1"
proof -
  from inv have nc: "\<not> crashed c" by (simp add: pool_inv_def)
  show ?thesis
  proof (cases "toSend c")
    case (Cons x rest)
    with inv have "length (urlChan c) < length urlList" by (simp add: pool_inv_def)
    with Cons nc have "step env to nets (length urlList) c Distribute
        = Some (c\<lparr> toSend := rest, urlChan := urlChan c @ [x] \<rparr>)"
      by (simp add: step_def)
    then show ?thesis by blast
  next
    case Nil
    show ?thesis
    proof (cases "urlChanClosed c")
      case False
      with Nil nc have "step env to nets (length urlList) c CloseURLs
          = Some (c\<lparr> urlChanClosed := True \<rparr>)"
        by (simp add: step_def)
      then show ?thesis by blast
    next
      case True
      show ?thesis
      proof (cases rule: workers_cases [of "workers c"])
        case (Holds w i url)
        show ?thesis
        proof (cases "url = []")
          case True
          with Holds nc have "step env to nets (length urlList) c (Run w)
              = Some (c\<lparr> workers := (workers c)[w := Waiting] \<rparr>)"
            by (simp add: step_def)
          then show ?thesis by blast
        next
          case False
          from room_for_result [OF inv Holds False] Holds False nc
          have "step env to nets (length urlList) c (Run w)
              = Some (c\<lparr> results := results c @ sent (checkCORS env url to (nets i)),
                         probed := probed c @ [(i, url)], workers := (workers c)[w := Waiting] \<rparr>)"
            by (simp add: step_def checkCORS_no_panic Let_def)
          then show ?thesis by blast
        qed
      next
        case (Waits w)
        show ?thesis
        proof (cases "urlChan c")
          case Nil
          with Waits True nc have "step env to nets (length urlList) c (Leave w)
              = Some (c\<lparr> workers := (workers c)[w := Exited] \<rparr>)"
            by (simp add: step_def)
          then show ?thesis by blast
        next
          case (Cons x rest)
          with Waits nc have "step env to nets (length urlList) c (Receive w)
              = Some (c\<lparr> urlChan := rest, workers := (workers c)[w := Holding (fst x) (snd x)] \<rparr>)"
            by (simp add: step_def)
          then show ?thesis by blast
        qed
      next
        case Gone
        show ?thesis
        proof (cases "resultsClosed c")
          case False
          with Gone nc have "step env to nets (length urlList) c CloseResults
              = Some (c\<lparr> resultsClosed := True \<rparr>)"
            by (simp add: step_def)
          then show ?thesis by blast
        next
          case True
          with nf nc obtain r rest where "results c = r # rest"
            by (cases "results c") (auto simp: finished_def)
          with nc have "step env to nets (length urlList) c Collect
              = Some (c\<lparr> results := rest, buckets := categorize (buckets c) r,
                         collected := collected c @ [r] \<rparr>)"
            by (simp add: step_def)
          then show ?thesis by blast
        qed
      qed
    qed
  qed
qed

lemma can_finish:
  "pool_inv env to nets urlList c \<Longrightarrow>
   \<exists>sched c1. exec env to nets (length urlList) c sched = Some c1 \<and> finished c1"
proof (induction "weight c" arbitrary: c rule: less_induct)
  case less
  show ?case
  proof (cases "finished c")
    case True
    then have "exec env to nets (length urlList) c [] = Some c \<and> finished c" by simp
    then show ?thesis by blast
  next
    case False
    with less.prems obtain a c1 where s: "step env to nets (length urlList) c a = Some c1"
      using progress by blast
    from s have "weight c1 < weight c" by (rule step_weight)
    moreover from less.prems s have "pool_inv env to nets urlList c1" by (rule step_inv)
    ultimately obtain sched c2 where
      "exec env to nets (length urlList) c1 sched = Some c2" "finished c2"
      using less.hyps by blast
    with s have "exec env to nets (length urlList) c (a # sched) = Some c2 \<and> finished c2" by simp
    then show ?thesis by blast
  qed
qed

section \<open>Properties of the collector\<close>

text \<open>Which of the four substrings each description contains.\<close>

lemma msgWildcard_contains:
  "map (strings_Contains msgWildcard) categories = [False, True, False, False]"
  by (simp add: strings_Contains_def msgWildcard_def categories_def sublist_code(3))

lemma msgNull_contains:
  "map (strings_Contains msgNull) categories = [True, False, False, False]"
  by (simp add: strings_Contains_def msgNull_def categories_def sublist_code(3))

lemma msgSame_contains:
  "map (strings_Contains msgSame) categories = [False, False, True, False]"
  by (simp add: strings_Contains_def msgSame_def categories_def sublist_code(3))

lemma msgDifferent_contains:
  "map (strings_Contains msgDifferent) categories = [False, False, False, True]"
  by (simp add: strings_Contains_def msgDifferent_def categories_def sublist_code(3))

lemma stage1_message:
  "stage1 env url to w = Inr f \<Longrightarrow> vulnerable f \<Longrightarrow> vulnerability f \<in> set messages"
  by (auto simp: stage1_def firstCheck_parseConfig Let_def messages_def
      split: if_splits prod.splits option.splits)

lemma stage2_message:
  "stage2 env url to f = Inr f1 \<Longrightarrow> (vulnerable f \<Longrightarrow> vulnerability f \<in> set messages) \<Longrightarrow>
   vulnerable f1 \<Longrightarrow> vulnerability f1 \<in> set messages"
  by (auto simp: stage2_def index0_parseConfig Let_def messages_def
      split: if_splits prod.splits option.splits)

lemma stage3_message:
  "stage3 env url to f = Inr f1 \<Longrightarrow> (vulnerable f \<Longrightarrow> vulnerability f \<in> set messages) \<Longrightarrow>
   vulnerable f1 \<Longrightarrow> vulnerability f1 \<in> set messages"
  by (auto simp: stage3_def index0_parseConfig Let_def messages_def
      split: if_splits prod.splits option.splits)

lemma sent_message:
  assumes "r \<in> set (sent (checkCORS env url to w))"
  shows "Vulnerability r \<in> set messages"
proof -
  from assms obtain f1 f2 f3 where s: "stage1 env url to w = Inr f1" "stage2 env url to f1 = Inr f2"
    "stage3 env url to f2 = Inr f3" and v: "vulnerable f3" and r: "Vulnerability r = vulnerability f3"
    by (auto simp: checkCORS_def finish_def Let_def split: sum.splits if_splits
        dest: stage1_Inl stage2_Inl stage3_Inl)
  have "vulnerable f2 \<Longrightarrow> vulnerability f2 \<in> set messages"
    using s(1,2) by (blast intro: stage1_message stage2_message)
  with v have "vulnerability f3 \<in> set messages"
    using stage3_message [OF s(3)] by blast
  with r show ?thesis by simp
qed

lemma categorize_message:
  assumes "Vulnerability r \<in> set messages"
  shows "mset (allBuckets (categorize b r)) = mset (allBuckets b) + {#r#}"
proof -
  from assms consider "Vulnerability r = msgNull" | "Vulnerability r = msgWildcard"
    | "Vulnerability r = msgSame" | "Vulnerability r = msgDifferent"
    by (auto simp: messages_def)
  then show ?thesis
  proof cases
    case 1
    with msgNull_contains show ?thesis
      by (simp add: categorize_def allBuckets_def categories_def)
  next
    case 2
    with msgWildcard_contains show ?thesis
      by (simp add: categorize_def allBuckets_def categories_def)
  next
    case 3
    with msgSame_contains show ?thesis
      by (simp add: categorize_def allBuckets_def categories_def)
  next
    case 4
    with msgDifferent_contains show ?thesis
      by (simp add: categorize_def allBuckets_def categories_def)
  qed
qed

lemma one_category:
  assumes "m \<in> set messages"
  shows "length (filter (strings_Contains m) categories) = 1"
proof -
  have cnt: "length (filter P xs) = count_list (map P xs) True"
    for P :: "string \<Rightarrow> bool" and xs
    by (induction xs) auto
  from assms consider "m = msgNull" | "m = msgWildcard" | "m = msgSame" | "m = msgDifferent"
    by (auto simp: messages_def)
  then show ?thesis
  proof cases
    case 1
    then show ?thesis by (simp add: cnt msgNull_contains)
  next
    case 2
    then show ?thesis by (simp add: cnt msgWildcard_contains)
  next
    case 3
    then show ?thesis by (simp add: cnt msgSame_contains)
  next
    case 4
    then show ?thesis by (simp add: cnt msgDifferent_contains)
  qed
qed

lemma start_bucket_inv: "bucket_inv (start urlList n)"
  by (simp add: bucket_inv_def start_def allBuckets_def noBuckets_def)

lemma step_bucket_inv:
  assumes inv: "bucket_inv c" and st: "step env to nets cap c a = Some c1"
  shows "bucket_inv c1"
proof (cases a)
  case Distribute
  with st have "step env to nets cap c Distribute = Some c1" by simp
  then show ?thesis
    by (elim step_DistributeE) (use inv in \<open>simp add: bucket_inv_def\<close>)
next
  case CloseURLs
  with st have "step env to nets cap c CloseURLs = Some c1" by simp
  then show ?thesis
    by (elim step_CloseURLsE) (use inv in \<open>simp add: bucket_inv_def\<close>)
next
  case (Receive w)
  with st have "step env to nets cap c (Receive w) = Some c1" by simp
  then show ?thesis
    by (elim step_ReceiveE) (use inv in \<open>simp add: bucket_inv_def\<close>)
next
  case (Run w)
  with st have "step env to nets cap c (Run w) = Some c1" by simp
  then show ?thesis
  proof (cases rule: step_RunE)
    case (Crash i url)
    then show ?thesis by (simp add: checkCORS_no_panic)
  next
    case (Probe i url)
    with inv show ?thesis
      by (auto simp: bucket_inv_def dest: sent_Vulnerable sent_message)
  next
    case (Skip i)
    with inv show ?thesis by (simp add: bucket_inv_def)
  qed
next
  case (Leave w)
  with st have "step env to nets cap c (Leave w) = Some c1" by simp
  then show ?thesis
    by (elim step_LeaveE) (use inv in \<open>simp add: bucket_inv_def\<close>)
next
  case CloseResults
  with st have "step env to nets cap c CloseResults = Some c1" by simp
  then show ?thesis
    by (elim step_CloseResultsE) (use inv in \<open>simp add: bucket_inv_def\<close>)
next
  case Collect
  with st have "step env to nets cap c Collect = Some c1" by simp
  then show ?thesis
  proof (rule step_CollectE)
    fix r rest
    assume h: "results c = r # rest"
      "c1 = c\<lparr> results := rest, buckets := categorize (buckets c) r, collected := collected c @ [r] \<rparr>"
    with inv have "Vulnerability r \<in> set messages" by (simp add: bucket_inv_def)
    then have "mset (allBuckets (categorize (buckets c) r)) = mset (allBuckets (buckets c)) + {#r#}"
      by (rule categorize_message)
    with inv h show ?thesis by (simp add: bucket_inv_def)
  qed
qed

lemma exec_bucket_inv:
  "bucket_inv c \<Longrightarrow> exec env to nets cap c sched = Some c1 \<Longrightarrow> bucket_inv c1"
proof (induction sched arbitrary: c)
  case Nil
  then show ?case by simp
next
  case (Cons a sched)
  then show ?case
    by (auto split: option.splits dest: step_bucket_inv)
qed

section \<open>Evaluation helpers\<close>

lemma Atoi_empty: "Atoi [] = (0, Some ErrSyntax)"
  by (simp add: Atoi_def ParseInt_def)

lemma categorize_msgWildcard:
  "Vulnerability r = msgWildcard \<Longrightarrow>
   categorize b r = b\<lparr> wildcardOriginResults := wildcardOriginResults b @ [r] \<rparr>"
  using msgWildcard_contains by (simp add: categorize_def categories_def)

lemma categorize_msgDifferent:
  "Vulnerability r = msgDifferent \<Longrightarrow>
   categorize b r = b\<lparr> differentDomainResults := differentDomainResults b @ [r] \<rparr>"
  using msgDifferent_contains by (simp add: categorize_def categories_def)

text \<open>Splitting and joining.\<close>

lemma strings_Split_not_Nil: "strings_Split s sep \<noteq> []"
  by (subst strings_Split.simps) (simp split: list.splits)

lemma joinWith_Cons: "ps \<noteq> [] \<Longrightarrow> joinWith sep (p # ps) = p @ sep # joinWith sep ps"
  by (cases ps) simp_all

lemma dropWhile_sep:
  assumes "dropWhile (\<lambda>c. c \<noteq> sep) s = x # rest"
  shows "x = sep" and "s = takeWhile (\<lambda>c. c \<noteq> sep) s @ sep # rest"
proof -
  from assms hd_dropWhile [of "\<lambda>c. c \<noteq> sep" s] show x: "x = sep" by simp
  have "s = takeWhile (\<lambda>c. c \<noteq> sep) s @ dropWhile (\<lambda>c. c \<noteq> sep) s"
    by simp
  with assms x show "s = takeWhile (\<lambda>c. c \<noteq> sep) s @ sep # rest"
    by simp
qed

lemma joinWith_strings_Split: "joinWith sep (strings_Split s sep) = s"
proof (induction s sep rule: strings_Split.induct)
  case (1 s sep)
  show ?case
  proof (cases "dropWhile (\<lambda>c. c \<noteq> sep) s")
    case Nil
    then have "strings_Split s sep = [s]"
      by (simp only: strings_Split.simps [of s sep] list.case)
    then show ?thesis by simp
  next
    case (Cons x rest)
    from "1" [OF Cons] have ih: "joinWith sep (strings_Split rest sep) = rest" .
    from Cons have "strings_Split s sep = takeWhile (\<lambda>c. c \<noteq> sep) s # strings_Split rest sep"
      by (simp only: strings_Split.simps [of s sep] list.case)
    then have "joinWith sep (strings_Split s sep) = takeWhile (\<lambda>c. c \<noteq> sep) s @ sep # rest"
      by (simp add: joinWith_Cons strings_Split_not_Nil ih)
    with dropWhile_sep(2) [OF Cons] show ?thesis by simp
  qed
qed

lemma strings_Split_no_sep: "p \<in> set (strings_Split s sep) \<Longrightarrow> sep \<notin> set p"
proof (induction s sep arbitrary: p rule: strings_Split.induct)
  case (1 s sep)
  show ?case
  proof (cases "dropWhile (\<lambda>c. c \<noteq> sep) s")
    case Nil
    then have "strings_Split s sep = [s]"
      by (simp only: strings_Split.simps [of s sep] list.case)
    moreover from Nil have "sep \<notin> set s"
      by (auto simp: dropWhile_eq_Nil_conv)
    ultimately show ?thesis using "1.prems" by simp
  next
    case (Cons x rest)
    then have "strings_Split s sep = takeWhile (\<lambda>c. c \<noteq> sep) s # strings_Split rest sep"
      by (simp only: strings_Split.simps [of s sep] list.case)
    with "1.prems" consider "p = takeWhile (\<lambda>c. c \<noteq> sep) s" | "p \<in> set (strings_Split rest sep)"
      by auto
    then show ?thesis
    proof cases
      case 1
      then show ?thesis by (auto dest: set_takeWhileD)
    next
      case 2
      with "1.IH" [OF Cons] show ?thesis by blast
    qed
  qed
qed

text \<open>The library's loops compute the reference value.\<close>

lemma decimalFrom_ge: "n \<le> decimalFrom n ds"
proof (induction ds arbitrary: n)
  case Nil
  then show ?case by simp
next
  case (Cons c ds)
  have "n \<le> n * 10 + (of_char c - 48)" by simp
  also have "\<dots> \<le> decimalFrom (n * 10 + (of_char c - 48)) ds" by (rule Cons.IH)
  finally show ?case by simp
qed

lemma digit_le_9: "isDigit c \<Longrightarrow> (of_char c :: nat) - 48 \<le> 9"
  unfolding isDigit_def by arith

lemma decimalFrom_less:
  "\<forall>c\<in>set ds. isDigit c \<Longrightarrow> decimalFrom n ds < (n + 1) * 10 ^ length ds"
proof (induction ds arbitrary: n)
  case Nil
  then show ?case by simp
next
  case (Cons c ds)
  then have d: "(of_char c :: nat) - 48 \<le> 9" by (simp add: digit_le_9)
  from Cons.prems have "\<forall>c\<in>set ds. isDigit c" by simp
  then have "decimalFrom (n * 10 + (of_char c - 48)) ds
      < (n * 10 + (of_char c - 48) + 1) * 10 ^ length ds"
    by (rule Cons.IH)
  also from d have "\<dots> \<le> ((n + 1) * 10) * 10 ^ length ds"
    by (intro mult_right_mono) simp_all
  finally show ?case by (simp add: algebra_simps)
qed

lemma ParseUint_loop_Cons:
  "ParseUint_loop n (c # cs) =
     (if \<not> isDigit c then (0, Some ErrSyntax)
      else if n \<ge> maxUint64 div 10 + 1 then (maxUint64, Some ErrRange)
      else if (n * 10 + (of_char c - 48)) mod 2 ^ 64 < n * 10
              \<or> (n * 10 + (of_char c - 48)) mod 2 ^ 64 > maxUint64
           then (maxUint64, Some ErrRange)
           else ParseUint_loop ((n * 10 + (of_char c - 48)) mod 2 ^ 64) cs)"
  by (simp add: isDigit_def Let_def)

lemma ParseUint_loop_eq:
  "n < 2 ^ 64 \<Longrightarrow>
   ParseUint_loop n s =
     (if 2 ^ 64 \<le> decimalFrom n (takeWhile isDigit s) then (maxUint64, Some ErrRange)
      else if takeWhile isDigit s \<noteq> s then (0, Some ErrSyntax)
      else (decimalFrom n s, None))"
proof (induction s arbitrary: n)
  case Nil
  then show ?case by simp
next
  case (Cons c cs)
  show ?case
  proof (cases "isDigit c")
    case False
    with Cons.prems show ?thesis
      by (simp add: ParseUint_loop_Cons del: ParseUint_loop.simps)
  next
    case True
    then have d: "(of_char c :: nat) - 48 \<le> 9" by (rule digit_le_9)
    define m where "m = n * 10 + ((of_char c :: nat) - 48)"
    have ge: "m \<le> decimalFrom m (takeWhile isDigit cs)" by (rule decimalFrom_ge)
    have tw: "takeWhile isDigit (c # cs) = c # takeWhile isDigit cs"
      using True by simp
    have df: "decimalFrom n (c # xs) = decimalFrom m xs" for xs
      by (simp add: m_def)
    show ?thesis
    proof (cases "2 ^ 64 \<le> m")
      case over: True
      with ge have big: "2 ^ 64 \<le> decimalFrom m (takeWhile isDigit cs)" by simp
      have "ParseUint_loop n (c # cs) = (maxUint64, Some ErrRange)"
      proof (cases "n \<ge> maxUint64 div 10 + 1")
        case True
        with \<open>isDigit c\<close> show ?thesis
          by (simp add: ParseUint_loop_Cons del: ParseUint_loop.simps)
      next
        case False
        from False d have "m < 2 * 2 ^ 64" by (simp add: m_def maxUint64_def)
        with over have "m mod 2 ^ 64 = m - 2 ^ 64"
          by (simp add: mod_if)
        with over d have "m mod 2 ^ 64 < n * 10" by (simp add: m_def)
        with False \<open>isDigit c\<close> show ?thesis
          by (simp add: ParseUint_loop_Cons m_def del: ParseUint_loop.simps)
      qed
      with big show ?thesis unfolding tw df by simp
    next
      case under: False
      then have m: "m < 2 ^ 64" by simp
      then have nc: "\<not> n \<ge> maxUint64 div 10 + 1"
        by (simp add: maxUint64_def m_def)
      from m have md: "m mod 2 ^ 64 = m" by simp
      from m have le: "\<not> m > maxUint64" by (simp add: maxUint64_def)
      have nl: "\<not> m < n * 10" by (simp add: m_def)
      from nc md le nl \<open>isDigit c\<close> have "ParseUint_loop n (c # cs) = ParseUint_loop m cs"
        by (simp add: ParseUint_loop_Cons m_def [symmetric] del: ParseUint_loop.simps)
      with Cons.IH [OF m] show ?thesis unfolding tw df by simp
    qed
  qed
qed

lemma byte_minus_0:
  "(((of_char ch :: nat) + 256 - 48) mod 256 > 9) = (\<not> isDigit ch)"
  "isDigit ch \<Longrightarrow> ((of_char ch :: nat) + 256 - 48) mod 256 = of_char ch - 48"
proof -
  define x :: nat where "x = of_char ch"
  have b: "x < 256" by (simp add: x_def)
  have hi: "(x + 256 - 48) mod 256 = x - 48" if "48 \<le> x"
  proof -
    from that have "x + 256 - 48 = (x - 48) + 256" by linarith
    then have "(x + 256 - 48) mod 256 = (x - 48) mod 256" by (simp only: mod_add_self2)
    also from b have "\<dots> = x - 48" by (intro mod_less) linarith
    finally show ?thesis .
  qed
  have lo: "(x + 256 - 48) mod 256 = x + 208" if "\<not> 48 \<le> x"
  proof -
    have "x + 256 - 48 = x + 208" by linarith
    moreover from that have "x + 208 < 256" by linarith
    ultimately show ?thesis by (simp only: mod_less)
  qed
  have "((x + 256 - 48) mod 256 > 9) = (\<not> (48 \<le> x \<and> x \<le> 57))"
  proof (cases "48 \<le> x")
    case True
    then have "(9 < x - 48) = (\<not> x \<le> 57)" by linarith
    with True hi show ?thesis by (simp only: simp_thms)
  next
    case False
    have "9 < x + 208" by linarith
    with False lo show ?thesis by (simp only: simp_thms)
  qed
  then show "(((of_char ch :: nat) + 256 - 48) mod 256 > 9) = (\<not> isDigit ch)"
    by (simp only: x_def isDigit_def)
  assume "isDigit ch"
  then have "48 \<le> x" by (simp only: x_def isDigit_def)
  then have "(x + 256 - 48) mod 256 = x - 48" by (rule hi)
  then show "((of_char ch :: nat) + 256 - 48) mod 256 = of_char ch - 48"
    by (simp only: x_def)
qed

lemma Atoi_fast_Cons:
  "Atoi_fast n (ch # s) =
     (if \<not> isDigit ch then None else Atoi_fast (n * 10 + int (of_char ch - 48)) s)"
proof (cases "isDigit ch")
  case True
  from byte_minus_0(1) [of ch] True have "\<not> ((of_char ch :: nat) + 256 - 48) mod 256 > 9"
    by (simp only: simp_thms)
  with True show ?thesis
    unfolding Atoi_fast.simps Let_def by (simp only: byte_minus_0(2) if_False simp_thms)
next
  case False
  from byte_minus_0(1) [of ch] False have "((of_char ch :: nat) + 256 - 48) mod 256 > 9"
    by (simp only: simp_thms)
  with False show ?thesis
    unfolding Atoi_fast.simps Let_def by (simp only: if_True simp_thms)
qed

lemma Atoi_fast_eq:
  "Atoi_fast (int n) s =
     (if takeWhile isDigit s = s then Some (int (decimalFrom n s)) else None)"
proof (induction s arbitrary: n)
  case Nil
  then show ?case by simp
next
  case (Cons ch s)
  show ?case
  proof (cases "isDigit ch")
    case False
    then show ?thesis by (simp add: Atoi_fast_Cons del: Atoi_fast.simps)
  next
    case True
    have "int n * 10 + int (of_char ch - 48) = int (n * 10 + (of_char ch - 48))" by simp
    then have "Atoi_fast (int n) (ch # s) = Atoi_fast (int (n * 10 + (of_char ch - 48))) s"
      using True by (simp only: Atoi_fast_Cons simp_thms if_False)
    also have "\<dots> = (if takeWhile isDigit s = s
        then Some (int (decimalFrom (n * 10 + (of_char ch - 48)) s)) else None)"
      by (rule Cons.IH)
    finally show ?thesis using True by simp
  qed
qed

lemma decimal_short:
  assumes "length ds < 19"
  shows "decimal (takeWhile isDigit ds) < 2 ^ 63"
proof -
  have "\<forall>c\<in>set (takeWhile isDigit ds). isDigit c"
    by (auto dest: set_takeWhileD)
  then have "decimalFrom 0 (takeWhile isDigit ds) < (0 + 1) * 10 ^ length (takeWhile isDigit ds)"
    by (rule decimalFrom_less)
  also have "\<dots> \<le> 10 ^ 18"
  proof -
    have "length (takeWhile isDigit ds) \<le> length ds" by (rule length_takeWhile_le)
    with assms have "length (takeWhile isDigit ds) \<le> 18" by simp
    then have "(10::nat) ^ length (takeWhile isDigit ds) \<le> 10 ^ 18"
      by (intro power_increasing) simp_all
    then show ?thesis by simp
  qed
  finally show ?thesis by (simp add: decimal_def)
qed

lemma ParseUint_eq:
  "ParseUint s =
     (if s = [] then (0, Some ErrSyntax)
      else if 2 ^ 64 \<le> decimal (takeWhile isDigit s) then (maxUint64, Some ErrRange)
      else if takeWhile isDigit s \<noteq> s then (0, Some ErrSyntax)
      else (decimal s, None))"
  by (simp add: ParseUint_def ParseUint_loop_eq decimal_def)

lemma fast_value:
  assumes "length body < 19" and "body \<noteq> []"
  shows "fst (case Atoi_fast 0 body of
                None \<Rightarrow> (0, Some ErrSyntax)
              | Some n \<Rightarrow> (if neg then - n else n, None)) = clampedValue neg body"
proof -
  from assms(1) have small: "decimal (takeWhile isDigit body) < 2 ^ 63"
    by (rule decimal_short)
  have fast: "Atoi_fast 0 body
      = (if takeWhile isDigit body = body then Some (int (decimal body)) else None)"
    using Atoi_fast_eq [of 0 body] by (simp add: decimal_def)
  show ?thesis
  proof (cases "takeWhile isDigit body = body")
    case True
    from small have d: "decimal body < 2 ^ 63" unfolding True .
    have f: "Atoi_fast 0 body = Some (int (decimal body))"
      unfolding fast True by simp
    have "clampedValue neg body = (if neg then - int (decimal body) else int (decimal body))"
      unfolding clampedValue_def Let_def True using assms(2) d by simp
    with f show ?thesis by simp
  next
    case False
    from small have d: "decimal (takeWhile isDigit body) < 2 ^ 64" by simp
    from False have f: "Atoi_fast 0 body = None"
      unfolding fast by (simp only: if_False)
    from False d have "clampedValue neg body = 0"
      unfolding clampedValue_def Let_def by (simp only: simp_thms if_True)
    with f show ?thesis by simp
  qed
qed

lemma slow_value:
  "fst (let (un, err) = ParseUint body
        in if err = Some ErrSyntax then (0, Some ErrSyntax)
           else if \<not> neg \<and> un \<ge> 2 ^ 63 then (maxInt64, Some ErrRange)
           else if neg \<and> un > 2 ^ 63 then (minInt64, Some ErrRange)
           else (if neg then - int un else int un, None)) = clampedValue neg body"
proof (cases "body = []")
  case True
  then show ?thesis by (simp add: ParseUint_eq clampedValue_def)
next
  case ne: False
  show ?thesis
  proof (cases "2 ^ 64 \<le> decimal (takeWhile isDigit body)")
    case True
    with ne have "ParseUint body = (maxUint64, Some ErrRange)" by (simp add: ParseUint_eq)
    moreover from True have "2 ^ 63 < decimal (takeWhile isDigit body)"
      "2 ^ 63 \<le> decimal (takeWhile isDigit body)" by simp_all
    ultimately show ?thesis using ne True
      by (simp add: clampedValue_def Let_def maxUint64_def)
  next
    case small: False
    show ?thesis
    proof (cases "takeWhile isDigit body = body")
      case False
      from small have lt: "decimal (takeWhile isDigit body) < 2 ^ 64" by simp
      from ne small False have "ParseUint body = (0, Some ErrSyntax)"
        unfolding ParseUint_eq by (simp only: if_False if_True simp_thms)
      moreover from False lt have "clampedValue neg body = 0"
        unfolding clampedValue_def Let_def by (simp only: simp_thms if_True)
      ultimately show ?thesis by simp
    next
      case True
      from small have lt: "\<not> 2 ^ 64 \<le> decimal body" unfolding True .
      from ne lt have "ParseUint body = (decimal body, None)"
        unfolding ParseUint_eq True by (simp only: if_False simp_thms)
      moreover have "clampedValue neg body =
          (if neg then (if 2 ^ 63 < decimal body then minInt64 else - int (decimal body))
           else (if 2 ^ 63 \<le> decimal body then maxInt64 else int (decimal body)))"
        unfolding clampedValue_def Let_def True using ne by (simp only: simp_thms if_False)
      ultimately show ?thesis by simp
    qed
  qed
qed

lemma Atoi_value: "fst (Atoi s) = maxAgeRef s"
proof (cases "s = []")
  case True
  then show ?thesis
    by (simp add: Atoi_def ParseInt_def maxAgeRef_def unsignedPart_def clampedValue_def)
next
  case ne: False
  show ?thesis
  proof (cases "hd s = CHR ''-'' \<or> hd s = CHR ''+''")
    case signed: True
    then have body: "unsignedPart s = tl s" using ne by (auto simp: unsignedPart_def)
    show ?thesis
    proof (cases "length s < 19")
      case short: True
      show ?thesis
      proof (cases "tl s = []")
        case True
        with ne short signed show ?thesis
          by (simp add: Atoi_def maxAgeRef_def body clampedValue_def)
      next
        case False
        from short have "length (tl s) < 19" by simp
        from fast_value [OF this False, of "hd s = CHR ''-''"] ne short signed False
        show ?thesis
          by (simp add: Atoi_def maxAgeRef_def body Let_def)
      qed
    next
      case False
      from signed have signed': "hd s = CHR ''+'' \<or> hd s = CHR ''-''" by blast
      from False ne signed' slow_value [of "tl s" "hd s = CHR ''-''"] show ?thesis
        by (simp add: Atoi_def ParseInt_def maxAgeRef_def body Let_def)
    qed
  next
    case unsigned: False
    then have body: "unsignedPart s = s" by (simp add: unsignedPart_def)
    show ?thesis
    proof (cases "length s < 19")
      case short: True
      from fast_value [OF short ne, of "hd s = CHR ''-''"] ne short unsigned
      show ?thesis
        by (simp add: Atoi_def maxAgeRef_def body Let_def)
    next
      case False
      from unsigned have unsigned': "\<not> (hd s = CHR ''+'' \<or> hd s = CHR ''-'')" by blast
      from False ne unsigned unsigned' slow_value [of s False] show ?thesis
        by (simp add: Atoi_def ParseInt_def maxAgeRef_def body Let_def)
    qed
  qed
qed

lemma MaxAge_header:
  "Header_Get (RespHeader (answer c [(''Access-Control-Max-Age'', v)])) ''Access-Control-Max-Age'' = v"
  by (simp add: answer_def Header_Get_def)

lemmas maxAgeRef_eval = maxAgeRef_def clampedValue_def unsignedPart_def isDigit_def decimal_def
  maxInt64_def minInt64_def Let_def

lemma maxAgeRef_examples:
  "maxAgeRef [] = 0"
  "maxAgeRef ''600'' = 600"
  "maxAgeRef ''-5'' = - 5"
  "maxAgeRef ''+'' = 0"
  "maxAgeRef ''12a'' = 0"
  "maxAgeRef ''9223372036854775807'' = 9223372036854775807"
  "maxAgeRef ''9223372036854775808'' = 9223372036854775807"
  "maxAgeRef ''-9223372036854775809'' = - 9223372036854775808"
  "maxAgeRef ''99999999999999999999x'' = 9223372036854775807"
  by (simp_all add: maxAgeRef_eval)

lemma Atoi_overflow: "Atoi ''9223372036854775808'' = (9223372036854775807, Some ErrRange)"
  by (simp add: Atoi_def ParseInt_def ParseUint_def maxUint64_def maxInt64_def)

lemma hugeMaxAge_header:
  "Header_Get (RespHeader (answer 200 [(''Access-Control-Max-Age'', ''9223372036854775808'')]))
     ''Access-Control-Max-Age'' = ''9223372036854775808''"
  by (simp add: answer_def Header_Get_def)

text \<open>The example run.\<close>

lemma example_down:
  "checkCORS (staticEnv mixedServer parseExamples) ''http://down.test'' 10 ()
     = \<lparr> stopped = Some ErrDo, sent = [],
         requests = [\<lparr> ReqURL = ''http://down.test'', ReqOrigin = ''null'' \<rparr>], network = () \<rparr>"
  by (simp add: checkCORS_def stage1_def abort_def staticEnv_def mixedServer_def parseExamples_def)

lemma example_target:
  "checkCORS (staticEnv mixedServer parseExamples) ''http://target.test'' 10 ()
     = \<lparr> stopped = None, sent = [wildcardResult],
         requests = [\<lparr> ReqURL = ''http://target.test'', ReqOrigin = ''null'' \<rparr>], network = () \<rparr>"
  by (simp add: checkCORS_def stage1_def stage2_def stage3_def finish_def firstCheck_def index0_def
      staticEnv_def mixedServer_def wildcardServer_def parseExamples_def answer_def Header_Get_def
      parseConfig_def parseHeader_def Atoi_empty wildcardResult_def Let_def)

lemma example_run:
  "pool (staticEnv mixedServer parseExamples) 10 noNets exampleURLs 2 exampleSchedule
     = Some exampleFinal"
  by (simp add: pool_def start_def exampleURLs_def exampleSchedule_def step_def noNets_def
      example_down example_target categorize_msgWildcard wildcardResult_def noBuckets_def
      exampleFinal_def numeral_2_eq_2)

lemma example_nonBlank:
  "nonBlank exampleURLs = [(0, ''http://down.test''), (2, ''http://target.test'')]"
  by (simp add: nonBlank_def exampleURLs_def)

lemma example_allBuckets: "allBuckets (buckets exampleFinal) = [wildcardResult]"
  by (simp add: exampleFinal_def allBuckets_def noBuckets_def)

section \<open>Runs of the whole pool\<close>

lemma weight_start: "weight (start urlList concurrency) = 6 * length urlList + nat concurrency + 2"
  by (simp add: weight_def start_def sum_list_replicate)

lemma pool_inv_reachable:
  "pool env to nets urlList concurrency schedule = Some c \<Longrightarrow> pool_inv env to nets urlList c"
  unfolding pool_def using start_inv by (rule exec_inv)

lemma pool_workers:
  "pool env to nets urlList concurrency schedule = Some c \<Longrightarrow>
   length (workers c) = nat concurrency"
  unfolding pool_def by (drule exec_workers_length) (simp add: start_def)

lemma pool_schedule_length:
  "pool env to nets urlList concurrency schedule = Some c \<Longrightarrow>
   length schedule \<le> 6 * length urlList + nat concurrency + 2"
  unfolding pool_def by (drule exec_weight) (simp add: weight_start)

lemma pool_can_continue:
  assumes "pool env to nets urlList concurrency schedule = Some c" and "\<not> finished c"
  shows "\<exists>a. pool env to nets urlList concurrency (schedule @ [a]) \<noteq> None"
proof -
  from assms(1) have "pool_inv env to nets urlList c" by (rule pool_inv_reachable)
  with assms(2) obtain a c1 where "step env to nets (length urlList) c a = Some c1"
    using progress by blast
  with assms(1) have "pool env to nets urlList concurrency (schedule @ [a]) = Some c1"
    by (simp add: pool_def exec_append)
  then show ?thesis by auto
qed

lemma pool_can_finish:
  "\<exists>schedule c. pool env to nets urlList concurrency schedule = Some c \<and> finished c"
  unfolding pool_def using start_inv by (rule can_finish)

lemma pool_finished:
  assumes "0 < concurrency" and "pool env to nets urlList concurrency schedule = Some c"
    and "finished c"
  shows "mset (probed c) = mset (nonBlank urlList)
    \<and> mset (collected c) = mset (concat (map (emitted env to nets) (nonBlank urlList)))"
proof -
  from assms(2) have inv: "pool_inv env to nets urlList c" by (rule pool_inv_reachable)
  from assms(1,2) have "workers c \<noteq> []" by (auto dest: pool_workers)
  with inv assms(3) show ?thesis by (simp add: finished_complete)
qed

text \<open>Without workers nothing is ever probed or collected.\<close>

lemma step_no_workers:
  assumes "workers c = [] \<and> probed c = [] \<and> results c = [] \<and> collected c = []"
    and "step env to nets cap c a = Some c1"
  shows "workers c1 = [] \<and> probed c1 = [] \<and> results c1 = [] \<and> collected c1 = []"
  using assms
  by (cases a)
    (auto elim!: step_DistributeE step_CloseURLsE step_ReceiveE step_RunE step_LeaveE
      step_CloseResultsE step_CollectE)

lemma exec_no_workers:
  "workers c = [] \<and> probed c = [] \<and> results c = [] \<and> collected c = [] \<Longrightarrow>
   exec env to nets cap c sched = Some c1 \<Longrightarrow>
   workers c1 = [] \<and> probed c1 = [] \<and> results c1 = [] \<and> collected c1 = []"
proof (induction sched arbitrary: c)
  case Nil
  then show ?case by simp
next
  case (Cons a sched)
  from Cons.prems(2) obtain c2 where s: "step env to nets cap c a = Some c2"
    and e: "exec env to nets cap c2 sched = Some c1"
    by (auto split: option.splits)
  from Cons.prems(1) s have "workers c2 = [] \<and> probed c2 = [] \<and> results c2 = [] \<and> collected c2 = []"
    by (rule step_no_workers)
  then show ?case using e by (rule Cons.IH)
qed

lemma no_workers_nothing_probed:
  assumes "concurrency \<le> 0" and "pool env to nets urlList concurrency schedule = Some c"
  shows "probed c = [] \<and> collected c = []"
proof -
  from assms(1) have "workers (start urlList concurrency) = []
      \<and> probed (start urlList concurrency) = [] \<and> results (start urlList concurrency) = []
      \<and> collected (start urlList concurrency) = []"
    by (simp add: start_def)
  moreover from assms(2)
  have "exec env to nets (length urlList) (start urlList concurrency) schedule = Some c"
    by (simp add: pool_def)
  ultimately have "workers c = [] \<and> probed c = [] \<and> results c = [] \<and> collected c = []"
    by (rule exec_no_workers)
  then show ?thesis by simp
qed

lemma bucket_inv_reachable:
  "pool env to nets urlList concurrency schedule = Some c \<Longrightarrow> bucket_inv c"
  unfolding pool_def using start_bucket_inv by (rule exec_bucket_inv)

lemma set_allBuckets:
  "bucket_inv c \<Longrightarrow> set (allBuckets (buckets c)) = set (collected c)"
  by (auto simp: bucket_inv_def dest: mset_eq_setD)

text \<open>A call that stops early sends nothing.\<close>

lemma stopped_sends_nothing:
  "stopped (checkCORS env url to w) \<noteq> None \<Longrightarrow> sent (checkCORS env url to w) = []"
  by (auto simp: checkCORS_def finish_def Let_def split: sum.splits
      dest: stage1_Inl stage2_Inl stage3_Inl)

lemma concat_map_filter:
  "(\<And>x. x \<in> set xs \<Longrightarrow> \<not> P x \<Longrightarrow> f x = []) \<Longrightarrow>
   concat (map f (filter P xs)) = concat (map f xs)"
  by (induction xs) auto

lemma emitted_completed:
  "concat (map (emitted env to nets)
       (filter (\<lambda>x. stopped (checkCORS env (snd x) to (nets (fst x))) = None) xs))
   = concat (map (emitted env to nets) xs)"
  by (rule concat_map_filter) (simp add: emitted_def stopped_sends_nothing)

text \<open>More evaluations.\<close>

lemma plain_header: "Header_Get (RespHeader (answer c [])) k = []"
  by (simp add: answer_def Header_Get_def)

lemma firstCheck_plain: "firstCheck env url (parseConfig (answer c [])) = Inr (False, [])"
  by (simp add: firstCheck_parseConfig plain_header strings_HasSuffix_def)

lemma suffix_example_com: "PublicSuffix_lookup someRules ''example.com'' = ''com''"
  by (simp add: PublicSuffix_lookup_def PublicSuffix_loop.simps someRules_def
      strings_LastIndexByte_def)

lemma suffix_example_url: "PublicSuffix_lookup someRules ''https://example.com/'' = ''com/''"
  by (simp add: PublicSuffix_lookup_def PublicSuffix_loop.simps someRules_def
      strings_LastIndexByte_def)

lemma evil_header:
  "Header_Get (RespHeader (answer 200 [(''Access-Control-Allow-Origin'', ''https://evil.com'')]))
     ''Access-Control-Allow-Origin'' = ''https://evil.com''"
  by (simp add: answer_def Header_Get_def)

lemma example_slash:
  "checkCORS (staticEnv fixedOriginServer parseExamples) ''https://example.com/'' 10 ()
     = \<lparr> stopped = None, sent = [],
         requests = [\<lparr> ReqURL = ''https://example.com/'', ReqOrigin = ''null'' \<rparr>,
                     \<lparr> ReqURL = ''https://example.com/'', ReqOrigin = ''http://example.com'' \<rparr>,
                     \<lparr> ReqURL = ''https://example.com/'', ReqOrigin = ''https://example.com'' \<rparr>],
         network = () \<rparr>"
  by (simp add: checkCORS_def stage1_def stage2_def stage3_def finish_def firstCheck_def index0_def
      staticEnv_def fixedOriginServer_def parseExamples_def answer_def Header_Get_def
      parseConfig_def parseHeader_def Atoi_empty strings_HasSuffix_def suffix_to_prefix
      suffix_example_url Let_def)

section \<open>The claims\<close>

text \<open>
  C1: in the first probe, with a reflected value that is neither \<open>*\<close> nor \<open>null\<close>, the
  verdict is "same domain" exactly when the public suffix is non-empty and the value ends
  with it; but the suffix is that of the \<open>url\<close> string as a whole, not of its host. For
  \<open>https://example.com/\<close> the host's suffix is \<open>com\<close>, the suffix the code uses is
  \<open>com/\<close>, and a reflected \<open>https://evil.com\<close> is not reported.
\<close>

theorem first_check_looks_at_whole_url:
  assumes "Header_Get (RespHeader rsp) ''Access-Control-Allow-Origin'' = ao"
    and "ao \<noteq> ''*''" and "ao \<noteq> ''null''"
  shows "firstCheck env url (parseConfig rsp) =
           Inr (if PublicSuffix env url \<noteq> [] \<and> strings_HasSuffix ao (PublicSuffix env url)
                then (True, msgSame) else (False, []))"
  using assms by (simp add: firstCheck_parseConfig)

theorem first_check_looks_at_whole_url_witness:
  "Parse (staticEnv fixedOriginServer parseExamples) ''https://example.com/''
     = Some \<lparr> Scheme = ''https'', Host = ''example.com'' \<rparr>
   \<and> PublicSuffix (staticEnv fixedOriginServer parseExamples) ''example.com'' = ''com''
   \<and> strings_HasSuffix ''https://evil.com'' ''com''
   \<and> PublicSuffix (staticEnv fixedOriginServer parseExamples) ''https://example.com/'' = ''com/''
   \<and> Header_Get (RespHeader (answer 200 [(''Access-Control-Allow-Origin'', ''https://evil.com'')]))
         ''Access-Control-Allow-Origin'' = ''https://evil.com''
   \<and> firstCheck (staticEnv fixedOriginServer parseExamples) ''https://example.com/''
         (parseConfig (answer 200 [(''Access-Control-Allow-Origin'', ''https://evil.com'')]))
       = Inr (False, [])
   \<and> checkCORS (staticEnv fixedOriginServer parseExamples) ''https://example.com/'' 10 ()
       = \<lparr> stopped = None, sent = [],
           requests = [\<lparr> ReqURL = ''https://example.com/'', ReqOrigin = ''null'' \<rparr>,
                       \<lparr> ReqURL = ''https://example.com/'', ReqOrigin = ''http://example.com'' \<rparr>,
                       \<lparr> ReqURL = ''https://example.com/'', ReqOrigin = ''https://example.com'' \<rparr>],
           network = () \<rparr>"
proof -
  have p: "Parse (staticEnv fixedOriginServer parseExamples) ''https://example.com/''
     = Some \<lparr> Scheme = ''https'', Host = ''example.com'' \<rparr>"
    by (simp add: staticEnv_def parseExamples_def)
  have h: "PublicSuffix (staticEnv fixedOriginServer parseExamples) ''example.com'' = ''com''"
    by (simp add: staticEnv_def suffix_example_com)
  have s: "strings_HasSuffix ''https://evil.com'' ''com''"
    by (simp add: strings_HasSuffix_def suffix_to_prefix)
  have u: "PublicSuffix (staticEnv fixedOriginServer parseExamples) ''https://example.com/''
      = ''com/''"
    by (simp add: staticEnv_def suffix_example_url)
  have n: "\<not> strings_HasSuffix ''https://evil.com'' ''com/''"
    by (simp add: strings_HasSuffix_def suffix_to_prefix)
  from first_check_looks_at_whole_url [OF evil_header, of "staticEnv fixedOriginServer parseExamples"
      "''https://example.com/''"] u n
  have "firstCheck (staticEnv fixedOriginServer parseExamples) ''https://example.com/''
         (parseConfig (answer 200 [(''Access-Control-Allow-Origin'', ''https://evil.com'')]))
       = Inr (False, [])"
    by simp
  with p h s u evil_header example_slash show ?thesis by simp
qed

text \<open>
  C2 (as amended): with at least one worker, the pool can always run to its end, every
  run is finite and never stuck before its end, and at the end of every run
  \<open>checkCORS\<close> has been called exactly once for each non-blank line and for no blank
  one, and \<open>main\<close> has received each result that these calls sent exactly once.
\<close>

theorem pool_runs_every_url_once:
  assumes "0 < concurrency"
  shows "(\<exists>schedule c. pool env to nets urlList concurrency schedule = Some c \<and> finished c)
    \<and> (\<forall>schedule c. pool env to nets urlList concurrency schedule = Some c \<longrightarrow>
          length schedule \<le> 6 * length urlList + nat concurrency + 2
          \<and> (\<not> finished c \<longrightarrow>
               (\<exists>a. pool env to nets urlList concurrency (schedule @ [a]) \<noteq> None))
          \<and> (finished c \<longrightarrow>
               mset (probed c) = mset (nonBlank urlList)
               \<and> mset (collected c)
                   = mset (concat (map (emitted env to nets) (nonBlank urlList)))))"
proof (intro conjI allI impI)
  show "\<exists>schedule c. pool env to nets urlList concurrency schedule = Some c \<and> finished c"
    by (rule pool_can_finish)
next
  fix schedule c
  assume "pool env to nets urlList concurrency schedule = Some c"
  then show "length schedule \<le> 6 * length urlList + nat concurrency + 2"
    by (rule pool_schedule_length)
next
  fix schedule c
  assume "pool env to nets urlList concurrency schedule = Some c" and "\<not> finished c"
  then show "\<exists>a. pool env to nets urlList concurrency (schedule @ [a]) \<noteq> None"
    by (rule pool_can_continue)
next
  fix schedule c
  assume r: "pool env to nets urlList concurrency schedule = Some c" and f: "finished c"
  from pool_finished [OF assms r f] show "mset (probed c) = mset (nonBlank urlList)"
    and "mset (collected c) = mset (concat (map (emitted env to nets) (nonBlank urlList)))"
    by simp_all
qed

theorem pool_runs_every_url_once_witness:
  "0 < (2::int)
   \<and> pool (staticEnv mixedServer parseExamples) 10 noNets exampleURLs 2 exampleSchedule
       = Some exampleFinal
   \<and> finished exampleFinal
   \<and> length exampleSchedule \<le> 6 * length exampleURLs + nat 2 + 2
   \<and> nonBlank exampleURLs = [(0, ''http://down.test''), (2, ''http://target.test'')]
   \<and> mset (probed exampleFinal) = mset (nonBlank exampleURLs)
   \<and> mset (collected exampleFinal)
       = mset (concat (map (emitted (staticEnv mixedServer parseExamples) 10 noNets)
                        (nonBlank exampleURLs)))"
proof -
  have pos: "0 < (2::int)" by simp
  have fin: "finished exampleFinal"
    by (simp add: finished_def exampleFinal_def)
  from pool_runs_every_url_once [OF pos, of "staticEnv mixedServer parseExamples" 10 noNets
      exampleURLs] example_run fin example_nonBlank
  show ?thesis by auto
qed

text \<open>
  C2 as stated fails without workers: with \<open>-c 0\<close> the \<open>results\<close> channel is closed
  at once, and \<open>main\<close> ends its loop while the only URL was never probed.
\<close>

theorem no_workers_no_probes:
  "pool (staticEnv wildcardServer parseExamples) 10 noNets [''http://target.test''] 0 [CloseResults]
     = Some ((start [''http://target.test''] 0)\<lparr> resultsClosed := True \<rparr>)
   \<and> finished ((start [''http://target.test''] 0)\<lparr> resultsClosed := True \<rparr>)
   \<and> probed ((start [''http://target.test''] 0)\<lparr> resultsClosed := True \<rparr>) = []
   \<and> nonBlank [''http://target.test''] = [(0, ''http://target.test'')]"
  by (simp add: pool_def step_def start_def finished_def nonBlank_def)

text \<open>
  C3: every value that \<open>checkCORS\<close> sends has \<open>Vulnerable = true\<close>, and so has every
  value found on the \<open>results\<close> channel, received by \<open>main\<close> or filed in one of the
  four slices, in every state the pool can reach.
\<close>

theorem only_vulnerable_results_surface:
  "(\<forall>r\<in>set (sent (checkCORS env url to w)). Vulnerable r)
   \<and> (\<forall>schedule c. pool env to nets urlList concurrency schedule = Some c \<longrightarrow>
         (\<forall>r\<in>set (results c) \<union> set (collected c) \<union> set (allBuckets (buckets c)).
            Vulnerable r))"
proof (intro conjI ballI allI impI)
  fix r
  assume "r \<in> set (sent (checkCORS env url to w))"
  then show "Vulnerable r" by (rule sent_Vulnerable)
next
  fix schedule c r
  assume "pool env to nets urlList concurrency schedule = Some c"
  then have b: "bucket_inv c" by (rule bucket_inv_reachable)
  assume "r \<in> set (results c) \<union> set (collected c) \<union> set (allBuckets (buckets c))"
  with b set_allBuckets [OF b] show "Vulnerable r"
    by (auto simp: bucket_inv_def)
qed

theorem only_vulnerable_results_surface_witness:
  "sent (checkCORS (staticEnv mixedServer parseExamples) ''http://target.test'' 10 ())
     = [wildcardResult]
   \<and> pool (staticEnv mixedServer parseExamples) 10 noNets exampleURLs 2 exampleSchedule
       = Some exampleFinal
   \<and> set (results exampleFinal) \<union> set (collected exampleFinal)
       \<union> set (allBuckets (buckets exampleFinal)) = {wildcardResult}
   \<and> Vulnerable wildcardResult"
proof -
  have s: "sent (checkCORS (staticEnv mixedServer parseExamples) ''http://target.test'' 10 ())
     = [wildcardResult]"
    by (simp add: example_target)
  have u: "set (results exampleFinal) \<union> set (collected exampleFinal)
       \<union> set (allBuckets (buckets exampleFinal)) = {wildcardResult}"
    by (simp add: example_allBuckets) (simp add: exampleFinal_def)
  from only_vulnerable_results_surface [where env = "staticEnv mixedServer parseExamples"
      and url = "''http://target.test''" and to = 10 and w = "()" and nets = noNets
      and urlList = exampleURLs and concurrency = 2] s
  have "Vulnerable wildcardResult" by simp
  with s u example_run show ?thesis by simp
qed

text \<open>
  C4: when the server answers the first probe (\<open>Origin: null\<close>) with
  \<open>Access-Control-Allow-Origin: *\<close>, the engine sends one result, vulnerable, with the
  wildcard description (which the collector files under the wildcard slice), built from
  that first response alone, and it has issued exactly one request.
\<close>

theorem wildcard_first_probe:
  assumes "NewRequest env url"
    and "Do env to w \<lparr> ReqURL = url, ReqOrigin = ''null'' \<rparr> = (Some rsp, w1)"
    and "Header_Get (RespHeader rsp) ''Access-Control-Allow-Origin'' = ''*''"
  shows "(let r = \<lparr> URL = url, StatusCode = RespStatusCode rsp, CORSConfig = parseConfig rsp,
                    Vulnerable = True, Vulnerability = msgWildcard \<rparr>
          in checkCORS env url to w =
               \<lparr> stopped = None, sent = [r],
                 requests = [\<lparr> ReqURL = url, ReqOrigin = ''null'' \<rparr>], network = w1 \<rparr>
             \<and> categorize b r = b\<lparr> wildcardOriginResults := wildcardOriginResults b @ [r] \<rparr>)"
  using assms
  by (simp add: checkCORS_def stage1_def stage2_def stage3_def finish_def firstCheck_parseConfig
      Let_def categorize_msgWildcard)

theorem wildcard_first_probe_witness:
  "NewRequest (staticEnv wildcardServer parseExamples) ''http://target.test''
   \<and> Do (staticEnv wildcardServer parseExamples) 10 ()
         \<lparr> ReqURL = ''http://target.test'', ReqOrigin = ''null'' \<rparr>
       = (Some (answer 200 [(''Access-Control-Allow-Origin'', ''*'')]), ())
   \<and> Header_Get (RespHeader (answer 200 [(''Access-Control-Allow-Origin'', ''*'')]))
         ''Access-Control-Allow-Origin'' = ''*''
   \<and> sent (checkCORS (staticEnv wildcardServer parseExamples) ''http://target.test'' 10 ())
       = [\<lparr> URL = ''http://target.test'', StatusCode = 200,
             CORSConfig = \<lparr> AllowOrigins = [''*''], AllowMethods = [], AllowHeaders = [],
                            ExposeHeaders = [], MaxAge = 0, AllowCredentials = [] \<rparr>,
             Vulnerable = True, Vulnerability = msgWildcard \<rparr>]
   \<and> requests (checkCORS (staticEnv wildcardServer parseExamples) ''http://target.test'' 10 ())
       = [\<lparr> ReqURL = ''http://target.test'', ReqOrigin = ''null'' \<rparr>]"
proof -
  have h1: "NewRequest (staticEnv wildcardServer parseExamples) ''http://target.test''"
    by (simp add: staticEnv_def parseExamples_def)
  have h2: "Do (staticEnv wildcardServer parseExamples) 10 ()
         \<lparr> ReqURL = ''http://target.test'', ReqOrigin = ''null'' \<rparr>
       = (Some (answer 200 [(''Access-Control-Allow-Origin'', ''*'')]), ())"
    by (simp add: staticEnv_def wildcardServer_def)
  have h3: "Header_Get (RespHeader (answer 200 [(''Access-Control-Allow-Origin'', ''*'')]))
         ''Access-Control-Allow-Origin'' = ''*''"
    by (simp add: answer_def Header_Get_def)
  have cfg: "parseConfig (answer 200 [(''Access-Control-Allow-Origin'', ''*'')])
      = \<lparr> AllowOrigins = [''*''], AllowMethods = [], AllowHeaders = [],
                            ExposeHeaders = [], MaxAge = 0, AllowCredentials = [] \<rparr>"
    by (simp add: parseConfig_def answer_def Header_Get_def parseHeader_def Atoi_empty)
  have st: "RespStatusCode (answer 200 [(''Access-Control-Allow-Origin'', ''*'')]) = 200"
    by (simp add: answer_def)
  from wildcard_first_probe [OF h1 h2 h3, of noBuckets] h1 h2 h3 show ?thesis
    by (simp add: Let_def cfg st)
qed

text \<open>
  C5: when the first probe finds nothing and the server answers the second probe
  (\<open>Origin: http://example.com\<close>) with that very origin, the engine sends one result,
  vulnerable, with the different-domain description, built from the second response, and
  it has issued exactly two requests.
\<close>

theorem different_domain_second_probe:
  assumes "NewRequest env url"
    and "Do env to w \<lparr> ReqURL = url, ReqOrigin = ''null'' \<rparr> = (Some rsp1, w1)"
    and "firstCheck env url (parseConfig rsp1) = Inr (False, [])"
    and "Do env to w1 \<lparr> ReqURL = url, ReqOrigin = ''http://example.com'' \<rparr> = (Some rsp2, w2)"
    and "Header_Get (RespHeader rsp2) ''Access-Control-Allow-Origin'' = ''http://example.com''"
  shows "(let r = \<lparr> URL = url, StatusCode = RespStatusCode rsp2, CORSConfig = parseConfig rsp2,
                    Vulnerable = True, Vulnerability = msgDifferent \<rparr>
          in checkCORS env url to w =
               \<lparr> stopped = None, sent = [r],
                 requests = [\<lparr> ReqURL = url, ReqOrigin = ''null'' \<rparr>,
                             \<lparr> ReqURL = url, ReqOrigin = ''http://example.com'' \<rparr>],
                 network = w2 \<rparr>
             \<and> categorize b r = b\<lparr> differentDomainResults := differentDomainResults b @ [r] \<rparr>)"
  using assms
  by (simp add: checkCORS_def stage1_def stage2_def stage3_def finish_def index0_parseConfig
      Let_def categorize_msgDifferent)

theorem different_domain_second_probe_witness:
  "NewRequest (staticEnv reflectingServer parseExamples) ''http://target.test''
   \<and> Do (staticEnv reflectingServer parseExamples) 10 ()
         \<lparr> ReqURL = ''http://target.test'', ReqOrigin = ''null'' \<rparr>
       = (Some (answer 200 []), ())
   \<and> firstCheck (staticEnv reflectingServer parseExamples) ''http://target.test''
         (parseConfig (answer 200 [])) = Inr (False, [])
   \<and> Do (staticEnv reflectingServer parseExamples) 10 ()
         \<lparr> ReqURL = ''http://target.test'', ReqOrigin = ''http://example.com'' \<rparr>
       = (Some (answer 200 [(''Access-Control-Allow-Origin'', ''http://example.com'')]), ())
   \<and> Header_Get (RespHeader (answer 200 [(''Access-Control-Allow-Origin'', ''http://example.com'')]))
         ''Access-Control-Allow-Origin'' = ''http://example.com''
   \<and> sent (checkCORS (staticEnv reflectingServer parseExamples) ''http://target.test'' 10 ())
       = [\<lparr> URL = ''http://target.test'', StatusCode = 200,
             CORSConfig = \<lparr> AllowOrigins = [''http://example.com''], AllowMethods = [],
                            AllowHeaders = [], ExposeHeaders = [], MaxAge = 0,
                            AllowCredentials = [] \<rparr>,
             Vulnerable = True, Vulnerability = msgDifferent \<rparr>]
   \<and> requests (checkCORS (staticEnv reflectingServer parseExamples) ''http://target.test'' 10 ())
       = [\<lparr> ReqURL = ''http://target.test'', ReqOrigin = ''null'' \<rparr>,
          \<lparr> ReqURL = ''http://target.test'', ReqOrigin = ''http://example.com'' \<rparr>]"
proof -
  have h1: "NewRequest (staticEnv reflectingServer parseExamples) ''http://target.test''"
    by (simp add: staticEnv_def parseExamples_def)
  have h2: "Do (staticEnv reflectingServer parseExamples) 10 ()
         \<lparr> ReqURL = ''http://target.test'', ReqOrigin = ''null'' \<rparr>
       = (Some (answer 200 []), ())"
    by (simp add: staticEnv_def reflectingServer_def)
  have h3: "firstCheck (staticEnv reflectingServer parseExamples) ''http://target.test''
         (parseConfig (answer 200 [])) = Inr (False, [])"
    by (simp add: firstCheck_parseConfig answer_def Header_Get_def strings_HasSuffix_def)
  have h4: "Do (staticEnv reflectingServer parseExamples) 10 ()
         \<lparr> ReqURL = ''http://target.test'', ReqOrigin = ''http://example.com'' \<rparr>
       = (Some (answer 200 [(''Access-Control-Allow-Origin'', ''http://example.com'')]), ())"
    by (simp add: staticEnv_def reflectingServer_def)
  have h5: "Header_Get
         (RespHeader (answer 200 [(''Access-Control-Allow-Origin'', ''http://example.com'')]))
         ''Access-Control-Allow-Origin'' = ''http://example.com''"
    by (simp add: answer_def Header_Get_def)
  have cfg: "parseConfig (answer 200 [(''Access-Control-Allow-Origin'', ''http://example.com'')])
      = \<lparr> AllowOrigins = [''http://example.com''], AllowMethods = [], AllowHeaders = [],
          ExposeHeaders = [], MaxAge = 0, AllowCredentials = [] \<rparr>"
    by (simp add: parseConfig_def answer_def Header_Get_def parseHeader_def Atoi_empty)
  have st: "RespStatusCode (answer 200 [(''Access-Control-Allow-Origin'', ''http://example.com'')])
      = 200"
    by (simp add: answer_def)
  from different_domain_second_probe [OF h1 h2 h3 h4 h5, of noBuckets] h1 h2 h3 h4 h5
  show ?thesis
    by (simp add: Let_def cfg st)
qed

text \<open>
  C6: when the server answers all three probes and none of the answers carries an
  \<open>Access-Control-Allow-Origin\<close> header (as with a server that sets no CORS header at
  all), the engine sends no result and has issued exactly three requests.
\<close>

theorem no_cors_headers_three_probes:
  assumes "NewRequest env url" and "Parse env url = Some u"
    and "Do env to w \<lparr> ReqURL = url, ReqOrigin = ''null'' \<rparr> = (Some rsp1, w1)"
    and "Do env to w1 \<lparr> ReqURL = url, ReqOrigin = ''http://example.com'' \<rparr> = (Some rsp2, w2)"
    and "Do env to w2 \<lparr> ReqURL = url, ReqOrigin = Scheme u @ ''://'' @ Host u \<rparr> = (Some rsp3, w3)"
    and "Header_Get (RespHeader rsp1) ''Access-Control-Allow-Origin'' = []"
    and "Header_Get (RespHeader rsp2) ''Access-Control-Allow-Origin'' = []"
    and "Header_Get (RespHeader rsp3) ''Access-Control-Allow-Origin'' = []"
  shows "checkCORS env url to w =
           \<lparr> stopped = None, sent = [],
             requests = [\<lparr> ReqURL = url, ReqOrigin = ''null'' \<rparr>,
                         \<lparr> ReqURL = url, ReqOrigin = ''http://example.com'' \<rparr>,
                         \<lparr> ReqURL = url, ReqOrigin = Scheme u @ ''://'' @ Host u \<rparr>],
             network = w3 \<rparr>"
  using assms
  by (simp add: checkCORS_def stage1_def stage2_def stage3_def finish_def index0_parseConfig
      firstCheck_parseConfig strings_HasSuffix_def Let_def)

theorem no_cors_headers_three_probes_witness:
  "NewRequest (staticEnv plainServer parseExamples) ''http://target.test''
   \<and> Parse (staticEnv plainServer parseExamples) ''http://target.test''
       = Some \<lparr> Scheme = ''http'', Host = ''target.test'' \<rparr>
   \<and> Do (staticEnv plainServer parseExamples) 10 ()
         \<lparr> ReqURL = ''http://target.test'', ReqOrigin = ''null'' \<rparr> = (Some (answer 404 []), ())
   \<and> Do (staticEnv plainServer parseExamples) 10 ()
         \<lparr> ReqURL = ''http://target.test'', ReqOrigin = ''http://example.com'' \<rparr>
       = (Some (answer 404 []), ())
   \<and> Do (staticEnv plainServer parseExamples) 10 ()
         \<lparr> ReqURL = ''http://target.test'', ReqOrigin = ''http://target.test'' \<rparr>
       = (Some (answer 404 []), ())
   \<and> Header_Get (RespHeader (answer 404 [])) ''Access-Control-Allow-Origin'' = []
   \<and> checkCORS (staticEnv plainServer parseExamples) ''http://target.test'' 10 ()
       = \<lparr> stopped = None, sent = [],
           requests = [\<lparr> ReqURL = ''http://target.test'', ReqOrigin = ''null'' \<rparr>,
                       \<lparr> ReqURL = ''http://target.test'', ReqOrigin = ''http://example.com'' \<rparr>,
                       \<lparr> ReqURL = ''http://target.test'', ReqOrigin = ''http://target.test'' \<rparr>],
           network = () \<rparr>"
proof -
  have h1: "NewRequest (staticEnv plainServer parseExamples) ''http://target.test''"
    by (simp add: staticEnv_def parseExamples_def)
  have h2: "Parse (staticEnv plainServer parseExamples) ''http://target.test''
       = Some \<lparr> Scheme = ''http'', Host = ''target.test'' \<rparr>"
    by (simp add: staticEnv_def parseExamples_def)
  have h3: "Do (staticEnv plainServer parseExamples) 10 ()
         \<lparr> ReqURL = ''http://target.test'', ReqOrigin = ''null'' \<rparr> = (Some (answer 404 []), ())"
    by (simp add: staticEnv_def plainServer_def)
  have h4: "Do (staticEnv plainServer parseExamples) 10 ()
         \<lparr> ReqURL = ''http://target.test'', ReqOrigin = ''http://example.com'' \<rparr>
       = (Some (answer 404 []), ())"
    by (simp add: staticEnv_def plainServer_def)
  have h5: "Do (staticEnv plainServer parseExamples) 10 ()
         \<lparr> ReqURL = ''http://target.test'',
           ReqOrigin = Scheme \<lparr> Scheme = ''http'', Host = ''target.test'' \<rparr> @ ''://''
             @ Host \<lparr> Scheme = ''http'', Host = ''target.test'' \<rparr> \<rparr>
       = (Some (answer 404 []), ())"
    by (simp add: staticEnv_def plainServer_def)
  have h6: "Header_Get (RespHeader (answer 404 [])) ''Access-Control-Allow-Origin'' = []"
    by (simp add: answer_def Header_Get_def)
  from no_cors_headers_three_probes [OF h1 h2 h3 h4 h5 h6 h6 h6] h1 h2 h3 h4 h5 h6
  show ?thesis
    by simp
qed

text \<open>
  C7: when building a request, sending it or parsing the URL fails, at whichever of the
  three probes, \<open>checkCORS\<close> returns at once: it sends no result and issues no further
  request. The pool is not stopped by it: no reachable state is a crash, and with at
  least one worker every run ends with all non-blank URLs probed and with exactly the
  results of the probes that did not fail.
\<close>

theorem failure_aborts_only_its_probe:
  "(\<not> NewRequest env url \<longrightarrow>
      checkCORS env url to w
        = \<lparr> stopped = Some ErrNewRequest, sent = [], requests = [], network = w \<rparr>)
   \<and> (NewRequest env url
        \<and> Do env to w \<lparr> ReqURL = url, ReqOrigin = ''null'' \<rparr> = (None, w1) \<longrightarrow>
      checkCORS env url to w
        = \<lparr> stopped = Some ErrDo, sent = [],
            requests = [\<lparr> ReqURL = url, ReqOrigin = ''null'' \<rparr>], network = w1 \<rparr>)
   \<and> (NewRequest env url
        \<and> Do env to w \<lparr> ReqURL = url, ReqOrigin = ''null'' \<rparr> = (Some rsp1, w1)
        \<and> firstCheck env url (parseConfig rsp1) = Inr (False, [])
        \<and> Do env to w1 \<lparr> ReqURL = url, ReqOrigin = ''http://example.com'' \<rparr> = (None, w2) \<longrightarrow>
      checkCORS env url to w
        = \<lparr> stopped = Some ErrDo, sent = [],
            requests = [\<lparr> ReqURL = url, ReqOrigin = ''null'' \<rparr>,
                        \<lparr> ReqURL = url, ReqOrigin = ''http://example.com'' \<rparr>],
            network = w2 \<rparr>)
   \<and> (NewRequest env url
        \<and> Do env to w \<lparr> ReqURL = url, ReqOrigin = ''null'' \<rparr> = (Some rsp1, w1)
        \<and> firstCheck env url (parseConfig rsp1) = Inr (False, [])
        \<and> Do env to w1 \<lparr> ReqURL = url, ReqOrigin = ''http://example.com'' \<rparr> = (Some rsp2, w2)
        \<and> Header_Get (RespHeader rsp2) ''Access-Control-Allow-Origin'' \<noteq> ''http://example.com''
        \<and> Parse env url = None \<longrightarrow>
      checkCORS env url to w
        = \<lparr> stopped = Some ErrParse, sent = [],
            requests = [\<lparr> ReqURL = url, ReqOrigin = ''null'' \<rparr>,
                        \<lparr> ReqURL = url, ReqOrigin = ''http://example.com'' \<rparr>],
            network = w2 \<rparr>)
   \<and> (NewRequest env url
        \<and> Do env to w \<lparr> ReqURL = url, ReqOrigin = ''null'' \<rparr> = (Some rsp1, w1)
        \<and> firstCheck env url (parseConfig rsp1) = Inr (False, [])
        \<and> Do env to w1 \<lparr> ReqURL = url, ReqOrigin = ''http://example.com'' \<rparr> = (Some rsp2, w2)
        \<and> Header_Get (RespHeader rsp2) ''Access-Control-Allow-Origin'' \<noteq> ''http://example.com''
        \<and> Parse env url = Some u
        \<and> Do env to w2 \<lparr> ReqURL = url, ReqOrigin = Scheme u @ ''://'' @ Host u \<rparr> = (None, w3) \<longrightarrow>
      checkCORS env url to w
        = \<lparr> stopped = Some ErrDo, sent = [],
            requests = [\<lparr> ReqURL = url, ReqOrigin = ''null'' \<rparr>,
                        \<lparr> ReqURL = url, ReqOrigin = ''http://example.com'' \<rparr>,
                        \<lparr> ReqURL = url, ReqOrigin = Scheme u @ ''://'' @ Host u \<rparr>],
            network = w3 \<rparr>)
   \<and> (stopped (checkCORS env url to w) \<noteq> None \<longrightarrow> sent (checkCORS env url to w) = [])
   \<and> (pool env to nets urlList concurrency schedule = Some c \<longrightarrow>
        \<not> crashed c
        \<and> (0 < concurrency \<and> finished c \<longrightarrow>
             mset (probed c) = mset (nonBlank urlList)
             \<and> mset (collected c)
                 = mset (concat (map (emitted env to nets)
                      (filter (\<lambda>x. stopped (checkCORS env (snd x) to (nets (fst x))) = None)
                         (nonBlank urlList))))))"
proof (intro conjI impI)
  assume "\<not> NewRequest env url"
  then show "checkCORS env url to w
        = \<lparr> stopped = Some ErrNewRequest, sent = [], requests = [], network = w \<rparr>"
    by (simp add: checkCORS_def stage1_def abort_def)
next
  assume "NewRequest env url
        \<and> Do env to w \<lparr> ReqURL = url, ReqOrigin = ''null'' \<rparr> = (None, w1)"
  then show "checkCORS env url to w
        = \<lparr> stopped = Some ErrDo, sent = [],
            requests = [\<lparr> ReqURL = url, ReqOrigin = ''null'' \<rparr>], network = w1 \<rparr>"
    by (simp add: checkCORS_def stage1_def abort_def)
next
  assume "NewRequest env url
        \<and> Do env to w \<lparr> ReqURL = url, ReqOrigin = ''null'' \<rparr> = (Some rsp1, w1)
        \<and> firstCheck env url (parseConfig rsp1) = Inr (False, [])
        \<and> Do env to w1 \<lparr> ReqURL = url, ReqOrigin = ''http://example.com'' \<rparr> = (None, w2)"
  then show "checkCORS env url to w
        = \<lparr> stopped = Some ErrDo, sent = [],
            requests = [\<lparr> ReqURL = url, ReqOrigin = ''null'' \<rparr>,
                        \<lparr> ReqURL = url, ReqOrigin = ''http://example.com'' \<rparr>],
            network = w2 \<rparr>"
    by (simp add: checkCORS_def stage1_def stage2_def abort_def)
next
  assume "NewRequest env url
        \<and> Do env to w \<lparr> ReqURL = url, ReqOrigin = ''null'' \<rparr> = (Some rsp1, w1)
        \<and> firstCheck env url (parseConfig rsp1) = Inr (False, [])
        \<and> Do env to w1 \<lparr> ReqURL = url, ReqOrigin = ''http://example.com'' \<rparr> = (Some rsp2, w2)
        \<and> Header_Get (RespHeader rsp2) ''Access-Control-Allow-Origin'' \<noteq> ''http://example.com''
        \<and> Parse env url = None"
  then show "checkCORS env url to w
        = \<lparr> stopped = Some ErrParse, sent = [],
            requests = [\<lparr> ReqURL = url, ReqOrigin = ''null'' \<rparr>,
                        \<lparr> ReqURL = url, ReqOrigin = ''http://example.com'' \<rparr>],
            network = w2 \<rparr>"
    by (simp add: checkCORS_def stage1_def stage2_def stage3_def abort_def index0_parseConfig)
next
  assume "NewRequest env url
        \<and> Do env to w \<lparr> ReqURL = url, ReqOrigin = ''null'' \<rparr> = (Some rsp1, w1)
        \<and> firstCheck env url (parseConfig rsp1) = Inr (False, [])
        \<and> Do env to w1 \<lparr> ReqURL = url, ReqOrigin = ''http://example.com'' \<rparr> = (Some rsp2, w2)
        \<and> Header_Get (RespHeader rsp2) ''Access-Control-Allow-Origin'' \<noteq> ''http://example.com''
        \<and> Parse env url = Some u
        \<and> Do env to w2 \<lparr> ReqURL = url, ReqOrigin = Scheme u @ ''://'' @ Host u \<rparr> = (None, w3)"
  then show "checkCORS env url to w
        = \<lparr> stopped = Some ErrDo, sent = [],
            requests = [\<lparr> ReqURL = url, ReqOrigin = ''null'' \<rparr>,
                        \<lparr> ReqURL = url, ReqOrigin = ''http://example.com'' \<rparr>,
                        \<lparr> ReqURL = url, ReqOrigin = Scheme u @ ''://'' @ Host u \<rparr>],
            network = w3 \<rparr>"
    by (simp add: checkCORS_def stage1_def stage2_def stage3_def abort_def index0_parseConfig)
next
  assume "stopped (checkCORS env url to w) \<noteq> None"
  then show "sent (checkCORS env url to w) = []"
    by (rule stopped_sends_nothing)
next
  assume r: "pool env to nets urlList concurrency schedule = Some c"
  then show "\<not> crashed c"
    by (auto dest: pool_inv_reachable simp: pool_inv_def)
  assume "0 < concurrency \<and> finished c"
  with pool_finished [OF _ r]
  show "mset (probed c) = mset (nonBlank urlList)"
    and "mset (collected c)
                 = mset (concat (map (emitted env to nets)
                      (filter (\<lambda>x. stopped (checkCORS env (snd x) to (nets (fst x))) = None)
                         (nonBlank urlList))))"
    by (simp_all add: emitted_completed)
qed

theorem failure_aborts_only_its_probe_witness:
  "\<not> NewRequest (staticEnv wildcardServer parseExamples) ''::bad''
   \<and> checkCORS (staticEnv wildcardServer parseExamples) ''::bad'' 10 ()
       = \<lparr> stopped = Some ErrNewRequest, sent = [], requests = [], network = () \<rparr>
   \<and> Do (staticEnv mixedServer parseExamples) 10 ()
         \<lparr> ReqURL = ''http://down.test'', ReqOrigin = ''null'' \<rparr> = (None, ())
   \<and> checkCORS (staticEnv mixedServer parseExamples) ''http://down.test'' 10 ()
       = \<lparr> stopped = Some ErrDo, sent = [],
           requests = [\<lparr> ReqURL = ''http://down.test'', ReqOrigin = ''null'' \<rparr>],
           network = () \<rparr>
   \<and> Do (staticEnv (answersOnlyTo [''null'']) parseExamples) 10 ()
         \<lparr> ReqURL = ''http://target.test'', ReqOrigin = ''http://example.com'' \<rparr> = (None, ())
   \<and> checkCORS (staticEnv (answersOnlyTo [''null'']) parseExamples) ''http://target.test'' 10 ()
       = \<lparr> stopped = Some ErrDo, sent = [],
           requests = [\<lparr> ReqURL = ''http://target.test'', ReqOrigin = ''null'' \<rparr>,
                       \<lparr> ReqURL = ''http://target.test'', ReqOrigin = ''http://example.com'' \<rparr>],
           network = () \<rparr>
   \<and> Parse (unparsedEnv plainServer) ''::bad'' = None
   \<and> checkCORS (unparsedEnv plainServer) ''::bad'' 10 ()
       = \<lparr> stopped = Some ErrParse, sent = [],
           requests = [\<lparr> ReqURL = ''::bad'', ReqOrigin = ''null'' \<rparr>,
                       \<lparr> ReqURL = ''::bad'', ReqOrigin = ''http://example.com'' \<rparr>],
           network = () \<rparr>
   \<and> Do (staticEnv (answersOnlyTo [''null'', ''http://example.com'']) parseExamples) 10 ()
         \<lparr> ReqURL = ''http://target.test'', ReqOrigin = ''http://target.test'' \<rparr> = (None, ())
   \<and> checkCORS (staticEnv (answersOnlyTo [''null'', ''http://example.com'']) parseExamples)
         ''http://target.test'' 10 ()
       = \<lparr> stopped = Some ErrDo, sent = [],
           requests = [\<lparr> ReqURL = ''http://target.test'', ReqOrigin = ''null'' \<rparr>,
                       \<lparr> ReqURL = ''http://target.test'', ReqOrigin = ''http://example.com'' \<rparr>,
                       \<lparr> ReqURL = ''http://target.test'', ReqOrigin = ''http://target.test'' \<rparr>],
           network = () \<rparr>
   \<and> pool (staticEnv mixedServer parseExamples) 10 noNets exampleURLs 2 exampleSchedule
       = Some exampleFinal
   \<and> 0 < (2::int) \<and> finished exampleFinal \<and> \<not> crashed exampleFinal
   \<and> mset (probed exampleFinal) = mset (nonBlank exampleURLs)
   \<and> filter (\<lambda>x. stopped (checkCORS (staticEnv mixedServer parseExamples) (snd x) 10
                      (noNets (fst x))) = None) (nonBlank exampleURLs)
       = [(2, ''http://target.test'')]
   \<and> collected exampleFinal = [wildcardResult]"
proof -
  have a1: "\<not> NewRequest (staticEnv wildcardServer parseExamples) ''::bad''"
    by (simp add: staticEnv_def parseExamples_def)
  from failure_aborts_only_its_probe [where env = "staticEnv wildcardServer parseExamples"
      and url = "''::bad''" and to = 10 and w = "()"] a1
  have a2: "checkCORS (staticEnv wildcardServer parseExamples) ''::bad'' 10 ()
       = \<lparr> stopped = Some ErrNewRequest, sent = [], requests = [], network = () \<rparr>"
    by simp
  have b0: "NewRequest (staticEnv mixedServer parseExamples) ''http://down.test''"
    by (simp add: staticEnv_def parseExamples_def)
  have b1: "Do (staticEnv mixedServer parseExamples) 10 ()
         \<lparr> ReqURL = ''http://down.test'', ReqOrigin = ''null'' \<rparr> = (None, ())"
    by (simp add: staticEnv_def mixedServer_def)
  from failure_aborts_only_its_probe [where env = "staticEnv mixedServer parseExamples"
      and url = "''http://down.test''" and to = 10 and w = "()" and ?w1.0 = "()"] b0 b1
  have b2: "checkCORS (staticEnv mixedServer parseExamples) ''http://down.test'' 10 ()
       = \<lparr> stopped = Some ErrDo, sent = [],
           requests = [\<lparr> ReqURL = ''http://down.test'', ReqOrigin = ''null'' \<rparr>],
           network = () \<rparr>"
    by simp
  have c0: "NewRequest (staticEnv (answersOnlyTo [''null'']) parseExamples) ''http://target.test''"
    by (simp add: staticEnv_def parseExamples_def)
  have c1: "Do (staticEnv (answersOnlyTo [''null'']) parseExamples) 10 ()
         \<lparr> ReqURL = ''http://target.test'', ReqOrigin = ''null'' \<rparr> = (Some (answer 200 []), ())"
    by (simp add: staticEnv_def answersOnlyTo_def)
  have c2: "Do (staticEnv (answersOnlyTo [''null'']) parseExamples) 10 ()
         \<lparr> ReqURL = ''http://target.test'', ReqOrigin = ''http://example.com'' \<rparr> = (None, ())"
    by (simp add: staticEnv_def answersOnlyTo_def)
  from failure_aborts_only_its_probe [where env = "staticEnv (answersOnlyTo [''null'']) parseExamples"
      and url = "''http://target.test''" and to = 10 and w = "()" and ?w1.0 = "()"
      and ?rsp1.0 = "answer 200 []" and ?w2.0 = "()"] c0 c1 c2
  have c3: "checkCORS (staticEnv (answersOnlyTo [''null'']) parseExamples) ''http://target.test'' 10 ()
       = \<lparr> stopped = Some ErrDo, sent = [],
           requests = [\<lparr> ReqURL = ''http://target.test'', ReqOrigin = ''null'' \<rparr>,
                       \<lparr> ReqURL = ''http://target.test'', ReqOrigin = ''http://example.com'' \<rparr>],
           network = () \<rparr>"
    by (simp add: firstCheck_plain plain_header)
  have d0: "NewRequest (unparsedEnv plainServer) ''::bad''"
    by (simp add: unparsedEnv_def)
  have d1: "Do (unparsedEnv plainServer) 10 () \<lparr> ReqURL = ''::bad'', ReqOrigin = ''null'' \<rparr>
      = (Some (answer 404 []), ())"
    by (simp add: unparsedEnv_def staticEnv_def plainServer_def)
  have d2: "Do (unparsedEnv plainServer) 10 ()
      \<lparr> ReqURL = ''::bad'', ReqOrigin = ''http://example.com'' \<rparr> = (Some (answer 404 []), ())"
    by (simp add: unparsedEnv_def staticEnv_def plainServer_def)
  have d3: "Parse (unparsedEnv plainServer) ''::bad'' = None"
    by (simp add: unparsedEnv_def staticEnv_def parseExamples_def)
  from failure_aborts_only_its_probe [where env = "unparsedEnv plainServer"
      and url = "''::bad''" and to = 10 and w = "()" and ?w1.0 = "()"
      and ?rsp1.0 = "answer 404 []" and ?w2.0 = "()" and ?rsp2.0 = "answer 404 []"]
    d0 d1 d2 d3
  have d4: "checkCORS (unparsedEnv plainServer) ''::bad'' 10 ()
       = \<lparr> stopped = Some ErrParse, sent = [],
           requests = [\<lparr> ReqURL = ''::bad'', ReqOrigin = ''null'' \<rparr>,
                       \<lparr> ReqURL = ''::bad'', ReqOrigin = ''http://example.com'' \<rparr>],
           network = () \<rparr>"
    by (simp add: firstCheck_plain plain_header)
  have e0: "NewRequest (staticEnv (answersOnlyTo [''null'', ''http://example.com'']) parseExamples)
      ''http://target.test''"
    by (simp add: staticEnv_def parseExamples_def)
  have e1: "Do (staticEnv (answersOnlyTo [''null'', ''http://example.com'']) parseExamples) 10 ()
         \<lparr> ReqURL = ''http://target.test'', ReqOrigin = ''null'' \<rparr> = (Some (answer 200 []), ())"
    by (simp add: staticEnv_def answersOnlyTo_def)
  have e2: "Do (staticEnv (answersOnlyTo [''null'', ''http://example.com'']) parseExamples) 10 ()
         \<lparr> ReqURL = ''http://target.test'', ReqOrigin = ''http://example.com'' \<rparr>
      = (Some (answer 200 []), ())"
    by (simp add: staticEnv_def answersOnlyTo_def)
  have e3: "Parse (staticEnv (answersOnlyTo [''null'', ''http://example.com'']) parseExamples)
      ''http://target.test'' = Some \<lparr> Scheme = ''http'', Host = ''target.test'' \<rparr>"
    by (simp add: staticEnv_def parseExamples_def)
  have e4: "Do (staticEnv (answersOnlyTo [''null'', ''http://example.com'']) parseExamples) 10 ()
         \<lparr> ReqURL = ''http://target.test'', ReqOrigin = ''http://target.test'' \<rparr> = (None, ())"
    by (simp add: staticEnv_def answersOnlyTo_def)
  from failure_aborts_only_its_probe
      [where env = "staticEnv (answersOnlyTo [''null'', ''http://example.com'']) parseExamples"
      and url = "''http://target.test''" and to = 10 and w = "()" and ?w1.0 = "()"
      and ?rsp1.0 = "answer 200 []" and ?w2.0 = "()" and ?rsp2.0 = "answer 200 []"
      and u = "\<lparr> Scheme = ''http'', Host = ''target.test'' \<rparr>" and ?w3.0 = "()"]
    e0 e1 e2 e3 e4
  have e5: "checkCORS (staticEnv (answersOnlyTo [''null'', ''http://example.com'']) parseExamples)
         ''http://target.test'' 10 ()
       = \<lparr> stopped = Some ErrDo, sent = [],
           requests = [\<lparr> ReqURL = ''http://target.test'', ReqOrigin = ''null'' \<rparr>,
                       \<lparr> ReqURL = ''http://target.test'', ReqOrigin = ''http://example.com'' \<rparr>,
                       \<lparr> ReqURL = ''http://target.test'', ReqOrigin = ''http://target.test'' \<rparr>],
           network = () \<rparr>"
    by (simp add: firstCheck_plain plain_header)
  have f0: "finished exampleFinal" "\<not> crashed exampleFinal"
    "collected exampleFinal = [wildcardResult]"
    by (simp_all add: finished_def exampleFinal_def)
  have f1: "filter (\<lambda>x. stopped (checkCORS (staticEnv mixedServer parseExamples) (snd x) 10
                      (noNets (fst x))) = None) (nonBlank exampleURLs)
       = [(2, ''http://target.test'')]"
    by (simp add: example_nonBlank noNets_def example_down example_target)
  from failure_aborts_only_its_probe [where env = "staticEnv mixedServer parseExamples"
      and to = 10 and nets = noNets and urlList = exampleURLs and concurrency = 2
      and schedule = exampleSchedule and c = exampleFinal] example_run f0
  have f2: "mset (probed exampleFinal) = mset (nonBlank exampleURLs)"
    by simp
  from a1 a2 b1 b2 c2 c3 d3 d4 e4 e5 example_run f0 f1 f2 show ?thesis
    by simp
qed

text \<open>
  C8 (as amended): \<open>"GET, POST"\<close> parses to \<open>["GET", " POST"]\<close>; an empty or absent
  header parses to the empty list; a non-empty header parses to its pieces between the
  commas, untrimmed (joined with commas they give the header back, and none holds a
  comma). \<open>MaxAge\<close> is zero when the \<open>Access-Control-Max-Age\<close> header is absent, and
  else it is the reference value of the header: with \<open>n\<close> the number denoted by the
  leading digits after an optional sign, zero when there is nothing after the sign or
  when a byte that is not a digit follows those digits and \<open>n < 2 ^ 64\<close>; otherwise
  \<open>n\<close> (negated under \<open>-\<close>) when that lies in the 64-bit range, and else the largest
  \<open>int\<close>, or the smallest under \<open>-\<close>. So a value that fails to parse gives zero
  only when the bad byte comes before the digits reach \<open>2 ^ 64\<close>.
\<close>

theorem header_parsing:
  "parseHeader ''GET, POST'' = [''GET'', '' POST'']
   \<and> parseHeader [] = []
   \<and> parseHeader (Header_Get Map.empty key) = []
   \<and> (header \<noteq> [] \<longrightarrow>
        parseHeader header \<noteq> []
        \<and> joinWith (CHR '','') (parseHeader header) = header
        \<and> (\<forall>p\<in>set (parseHeader header). CHR '','' \<notin> set p))
   \<and> MaxAge (parseConfig rsp)
       = maxAgeRef (Header_Get (RespHeader rsp) ''Access-Control-Max-Age'')
   \<and> (RespHeader rspA ''Access-Control-Max-Age'' = None \<longrightarrow> MaxAge (parseConfig rspA) = 0)"
proof -
  have "parseHeader ''GET, POST'' = [''GET'', '' POST'']"
    by (simp add: parseHeader_def strings_Split.simps)
  moreover have "parseHeader [] = []" "parseHeader (Header_Get Map.empty key) = []"
    by (simp_all add: parseHeader_def Header_Get_def)
  moreover have "header \<noteq> [] \<longrightarrow>
        parseHeader header \<noteq> []
        \<and> joinWith (CHR '','') (parseHeader header) = header
        \<and> (\<forall>p\<in>set (parseHeader header). CHR '','' \<notin> set p)"
    by (auto simp: parseHeader_def strings_Split_not_Nil joinWith_strings_Split
        dest: strings_Split_no_sep)
  moreover have "MaxAge (parseConfig rsp)
       = maxAgeRef (Header_Get (RespHeader rsp) ''Access-Control-Max-Age'')"
    by (simp add: parseConfig_def Atoi_value)
  moreover have "RespHeader rspA ''Access-Control-Max-Age'' = None \<longrightarrow> MaxAge (parseConfig rspA) = 0"
    by (simp add: parseConfig_def Header_Get_def Atoi_empty)
  ultimately show ?thesis by blast
qed

theorem header_parsing_witness:
  "''a,,b '' \<noteq> []
   \<and> parseHeader ''a,,b '' = [''a'', [], ''b '']
   \<and> joinWith (CHR '','') (parseHeader ''a,,b '') = ''a,,b ''
   \<and> RespHeader (answer 200 []) ''Access-Control-Max-Age'' = None
   \<and> MaxAge (parseConfig (answer 200 [])) = 0
   \<and> MaxAge (parseConfig (answer 200 [(''Access-Control-Max-Age'', ''600'')])) = 600
   \<and> MaxAge (parseConfig (answer 200 [(''Access-Control-Max-Age'', ''-5'')])) = - 5
   \<and> MaxAge (parseConfig (answer 200 [(''Access-Control-Max-Age'', ''12a'')])) = 0
   \<and> MaxAge (parseConfig (answer 200 [(''Access-Control-Max-Age'', ''9223372036854775807'')]))
       = 9223372036854775807
   \<and> MaxAge (parseConfig (answer 200 [(''Access-Control-Max-Age'', ''9223372036854775808'')]))
       = 9223372036854775807
   \<and> MaxAge (parseConfig (answer 200 [(''Access-Control-Max-Age'', ''-9223372036854775809'')]))
       = - 9223372036854775808
   \<and> MaxAge (parseConfig (answer 200 [(''Access-Control-Max-Age'', ''99999999999999999999x'')]))
       = 9223372036854775807"
proof -
  have a: "''a,,b '' \<noteq> []" by simp
  have b: "parseHeader ''a,,b '' = [''a'', [], ''b '']"
    by (simp add: parseHeader_def strings_Split.simps)
  have c: "RespHeader (answer 200 []) ''Access-Control-Max-Age'' = None"
    by (simp add: answer_def)
  from header_parsing [where header = "''a,,b ''" and rspA = "answer 200 []"] a c
  have j: "joinWith (CHR '','') (parseHeader ''a,,b '') = ''a,,b ''"
    and z: "MaxAge (parseConfig (answer 200 [])) = 0"
    by blast+
  have v: "MaxAge (parseConfig (answer 200 [(''Access-Control-Max-Age'', x)])) = maxAgeRef x" for x
    using header_parsing [where rsp = "answer 200 [(''Access-Control-Max-Age'', x)]"]
    by (simp only: MaxAge_header)
  from a b c j z show ?thesis
    by (simp only: v maxAgeRef_examples simp_thms)
qed

text \<open>
  C8 as stated fails: \<open>Access-Control-Max-Age: 9223372036854775808\<close> does not parse
  as an \<open>int\<close>, and \<open>MaxAge\<close> is then \<open>9223372036854775807\<close>, not zero.
\<close>

theorem max_age_out_of_range_not_zero:
  "snd (Atoi ''9223372036854775808'') = Some ErrRange
   \<and> MaxAge (parseConfig (answer 200 [(''Access-Control-Max-Age'', ''9223372036854775808'')]))
       = 9223372036854775807"
  by (simp add: parseConfig_def hugeMaxAge_header Atoi_overflow)

text \<open>
  C9: after every parse, \<open>AllowOrigins\<close> is the one-element list that holds the value
  of the \<open>Access-Control-Allow-Origin\<close> header (the empty string when the header is
  absent), so no read of \<open>AllowOrigins[0]\<close> in the probe engine is out of range: a
  call of \<open>checkCORS\<close> never panics.
\<close>

theorem AllowOrigins_index_in_bounds:
  "AllowOrigins (parseConfig rsp) = [Header_Get (RespHeader rsp) ''Access-Control-Allow-Origin'']
   \<and> length (AllowOrigins (parseConfig rsp)) = 1
   \<and> AllowOrigins (parseConfig (rsp\<lparr> RespHeader := (RespHeader rsp)(''Access-Control-Allow-Origin'' := None) \<rparr>)) = [[]]
   \<and> index0 (AllowOrigins (parseConfig rsp)) \<noteq> None
   \<and> stopped (checkCORS env url to w) \<noteq> Some PanicIndex"
  by (simp add: parseConfig_def Header_Get_def index0_def checkCORS_no_panic)

text \<open>
  C10: the description of every value that \<open>checkCORS\<close> sends is one of the four
  messages and contains exactly one of the four substrings the collector looks for, so
  the collector adds the value to exactly one slice; in every state the pool can reach,
  the four slices together hold exactly the values \<open>main\<close> has received.
\<close>

theorem descriptions_fall_in_one_bucket:
  "(\<forall>r\<in>set (sent (checkCORS env url to w)).
      Vulnerability r \<in> set messages
      \<and> length (filter (strings_Contains (Vulnerability r)) categories) = 1
      \<and> mset (allBuckets (categorize b r)) = mset (allBuckets b) + {#r#})
   \<and> (\<forall>schedule c. pool env to nets urlList concurrency schedule = Some c \<longrightarrow>
         mset (allBuckets (buckets c)) = mset (collected c))"
proof (intro conjI ballI allI impI)
  fix r
  assume "r \<in> set (sent (checkCORS env url to w))"
  then show m: "Vulnerability r \<in> set messages" by (rule sent_message)
  then show "length (filter (strings_Contains (Vulnerability r)) categories) = 1"
    by (rule one_category)
  from m show "mset (allBuckets (categorize b r)) = mset (allBuckets b) + {#r#}"
    by (rule categorize_message)
next
  fix schedule c
  assume "pool env to nets urlList concurrency schedule = Some c"
  then have "bucket_inv c" by (rule bucket_inv_reachable)
  then show "mset (allBuckets (buckets c)) = mset (collected c)"
    by (simp add: bucket_inv_def)
qed

theorem descriptions_fall_in_one_bucket_witness:
  "sent (checkCORS (staticEnv mixedServer parseExamples) ''http://target.test'' 10 ())
     = [wildcardResult]
   \<and> filter (strings_Contains (Vulnerability wildcardResult)) categories = [''Wildcard origin'']
   \<and> allBuckets (categorize noBuckets wildcardResult) = [wildcardResult]
   \<and> mset (allBuckets (categorize noBuckets wildcardResult))
       = mset (allBuckets noBuckets) + {#wildcardResult#}
   \<and> pool (staticEnv mixedServer parseExamples) 10 noNets exampleURLs 2 exampleSchedule
       = Some exampleFinal
   \<and> mset (allBuckets (buckets exampleFinal)) = mset (collected exampleFinal)"
proof -
  have s: "sent (checkCORS (staticEnv mixedServer parseExamples) ''http://target.test'' 10 ())
     = [wildcardResult]"
    by (simp add: example_target)
  have f: "filter (strings_Contains (Vulnerability wildcardResult)) categories
      = [''Wildcard origin'']"
    using msgWildcard_contains by (simp add: wildcardResult_def categories_def)
  have c: "allBuckets (categorize noBuckets wildcardResult) = [wildcardResult]"
    by (simp add: categorize_msgWildcard wildcardResult_def allBuckets_def noBuckets_def)
  from descriptions_fall_in_one_bucket [where env = "staticEnv mixedServer parseExamples"
      and url = "''http://target.test''" and to = 10 and w = "()" and b = noBuckets
      and nets = noNets and urlList = exampleURLs and concurrency = 2] s example_run
  have "mset (allBuckets (categorize noBuckets wildcardResult))
       = mset (allBuckets noBuckets) + {#wildcardResult#}"
    and "mset (allBuckets (buckets exampleFinal)) = mset (collected exampleFinal)"
    by simp_all
  with s f c example_run show ?thesis by simp
qed

end
